theory Spec2Isabelle
  imports Main "HOL-Library.AList"
begin

section \<open>Shared data: operations and wire messages\<close>

text \<open>
  One drawing operation as it travels in a \<^verbatim>\<open>drawing\<close> message
  (canvas.js \<^verbatim>\<open>startDrawing\<close>, \<^verbatim>\<open>draw\<close>, \<^verbatim>\<open>clearCanvas\<close>). A \<^verbatim>\<open>clear\<close>
  operation is built with \<^verbatim>\<open>type\<close> and \<^verbatim>\<open>timestamp\<close> only, so the other fields are
  optional. Coordinates and clock readings are JavaScript numbers; neither side of the
  synchronisation path computes with the coordinates, so they are carried as integers.
\<close>

record operation =
  op_type :: string
  op_x :: "int option"
  op_y :: "int option"
  op_tool :: "string option"
  op_color :: "string option"
  op_width :: "int option"
  op_timestamp :: int

text \<open>
  The \<^verbatim>\<open>userId\<close> of a message as the server reads it: \<^verbatim>\<open>undefined\<close> when the field is missing,
  \<^verbatim>\<open>null\<close>, or a string. The server never checks it, so all three reach the maps as keys
  (where \<^verbatim>\<open>undefined\<close> and \<^verbatim>\<open>null\<close> are two different keys) and the sockets as \<^verbatim>\<open>ws.userId\<close>.
  Other JSON values are not modelled.
\<close>

datatype js_id = Undefined | Null | Str string

text \<open>JavaScript truthiness: \<^verbatim>\<open>undefined\<close>, \<^verbatim>\<open>null\<close> and the empty string are falsy.\<close>

fun truthy :: "js_id \<Rightarrow> bool" where
  "truthy (Str u) = (u \<noteq> [])"
| "truthy v = False"

text \<open>A parameter declared \<^verbatim>\<open>= null\<close>: an argument that is missing or \<^verbatim>\<open>undefined\<close> reads \<^verbatim>\<open>null\<close>.\<close>

fun default_null :: "js_id \<Rightarrow> js_id" where
  "default_null Undefined = Null"
| "default_null v = v"

section \<open>Server: rooms (rooms.js)\<close>

record user_data =
  ud_userId :: js_id
  ud_userName :: string
  ud_userColor :: string
  ud_joinedAt :: int

text \<open>
  A JavaScript \<^verbatim>\<open>Map\<close> keeps its keys in insertion order, \<^verbatim>\<open>set\<close> on a present key
  replaces the value in place and \<^verbatim>\<open>delete\<close> drops the entry: this is an association
  list under \<^const>\<open>AList.update\<close>, \<^const>\<open>map_of\<close> and \<^const>\<open>AList.delete\<close>.
\<close>

record Room =
  roomId :: string
  users :: "(js_id \<times> user_data) list"
  drawingHistory :: "operation list"
  maxHistorySize :: nat
  createdAt :: int

definition new_Room :: "string \<Rightarrow> int \<Rightarrow> Room" where
  "new_Room rid now =
     \<lparr>roomId = rid, users = [], drawingHistory = [], maxHistorySize = 1000, createdAt = now\<rparr>"

definition addUser :: "js_id \<Rightarrow> user_data \<Rightarrow> Room \<Rightarrow> Room" where
  "addUser uid ud r = r\<lparr>users := AList.update uid ud (users r)\<rparr>"

definition removeUser :: "js_id \<Rightarrow> Room \<Rightarrow> Room" where
  "removeUser uid r = r\<lparr>users := AList.delete uid (users r)\<rparr>"

definition getUsers :: "Room \<Rightarrow> user_data list" where
  "getUsers r = map snd (users r)"

text \<open>\<^verbatim>\<open>arr.slice(-n)\<close>: the last \<open>n\<close> elements; \<^verbatim>\<open>slice(-0)\<close> is \<^verbatim>\<open>slice(0)\<close>, the whole array.\<close>

definition slice_from_end :: "nat \<Rightarrow> 'a list \<Rightarrow> 'a list" where
  "slice_from_end n xs = (if n = 0 then xs else drop (length xs - n) xs)"

text \<open>\<^verbatim>\<open>{ ...op, timestamp: Date.now() }\<close>: a copy of the operation under the receipt time.\<close>

definition stamp :: "int \<Rightarrow> operation \<Rightarrow> operation" where
  "stamp now op = op\<lparr>op_timestamp := now\<rparr>"

text \<open>
  \<^verbatim>\<open>addDrawingOperation(operations)\<close>: push every operation of the batch, then cut the
  log back to its last \<^verbatim>\<open>maxHistorySize\<close> entries. The clock is read once per call.
\<close>

definition addDrawingOperation :: "int \<Rightarrow> operation list \<Rightarrow> Room \<Rightarrow> Room" where
  "addDrawingOperation now operations r =
     (let h = drawingHistory r @ map (stamp now) operations
      in if length h > maxHistorySize r
         then r\<lparr>drawingHistory := slice_from_end (maxHistorySize r) h\<rparr>
         else r\<lparr>drawingHistory := h\<rparr>)"

definition getDrawingHistory :: "Room \<Rightarrow> operation list" where
  "getDrawingHistory r = drawingHistory r"

definition clearHistory :: "Room \<Rightarrow> Room" where
  "clearHistory r = r\<lparr>drawingHistory := []\<rparr>"

text \<open>A run of append calls on one room, each with its clock reading and its batch.\<close>

fun append_calls :: "(int \<times> operation list) list \<Rightarrow> Room \<Rightarrow> Room" where
  "append_calls [] r = r"
| "append_calls ((now, operations) # cs) r = append_calls cs (addDrawingOperation now operations r)"

text \<open>Everything those calls handed to the log, in receipt order, as the log stores it.\<close>

fun received :: "(int \<times> operation list) list \<Rightarrow> operation list" where
  "received [] = []"
| "received ((now, operations) # cs) = map (stamp now) operations @ received cs"

section \<open>Server: wire messages\<close>

text \<open>
  What a client sends, decoded by \<^verbatim>\<open>message.type\<close>. \<^verbatim>\<open>UserJoin\<close> carries \<^verbatim>\<open>userId\<close>,
  \<^verbatim>\<open>userName\<close>, \<^verbatim>\<open>userColor\<close>; the server stores and uses the id as it comes. \<^verbatim>\<open>Drawing\<close> carries
  \<^verbatim>\<open>userId\<close>, \<^verbatim>\<open>operations\<close> (\<open>None\<close> when the field is missing or not an array) and
  \<^verbatim>\<open>timestamp\<close>; \<^verbatim>\<open>CursorMove\<close> carries \<^verbatim>\<open>userId\<close>, \<^verbatim>\<open>x\<close>, \<^verbatim>\<open>y\<close>, \<^verbatim>\<open>timestamp\<close>.
  \<^verbatim>\<open>Malformed\<close> is a payload on which \<^verbatim>\<open>JSON.parse\<close> or the read of \<^verbatim>\<open>type\<close> throws.
\<close>

datatype client_msg =
    UserJoin js_id string string
  | Drawing string "operation list option" int
  | CursorMove string int int int
  | Ping
  | CanvasSync
  | UnknownType string
  | Malformed

datatype server_msg =
    UserList "user_data list"
  | DrawingHistory "operation list"
  | SyncComplete nat
  | UserJoined js_id string string
  | UserLeft js_id string
  | DrawingFrom js_id "operation list" int
  | CursorFrom js_id int int int
  | Pong
  | SyncCompleteHistory "operation list" int

section \<open>Server: connection registry and broadcast (drawing-state.js)\<close>

record connection_data =
  cd_ws :: nat
  cd_userId :: js_id
  cd_userData :: user_data
  cd_roomId :: string

text \<open>
  One accepted socket together with the variables its handlers close over (server.js,
  \<^verbatim>\<open>wss.on('connection')\<close>): \<^verbatim>\<open>ws.userId\<close> is undefined until a join sets it;
  \<^verbatim>\<open>roomId\<close>, \<^verbatim>\<open>userId\<close>, \<^verbatim>\<open>userData\<close> are the closure's \<^verbatim>\<open>let\<close> variables, the last
  two \<^verbatim>\<open>null\<close> at first (\<open>None\<close> for the data). \<^verbatim>\<open>readyState\<close> 1 is OPEN.
\<close>

record connection =
  ws_id :: nat
  ws_userId :: js_id
  ws_readyState :: nat
  c_roomId :: string
  c_userId :: js_id
  c_userData :: "user_data option"

text \<open>
  The server: the module-level \<^verbatim>\<open>rooms\<close> and \<^verbatim>\<open>userConnections\<close> maps, the sockets of
  \<^verbatim>\<open>wss.clients\<close> in insertion order, and every \<^verbatim>\<open>send\<close> call so far as (socket, message).
\<close>

record server =
  rooms :: "(string \<times> Room) list"
  userConnections :: "(js_id \<times> connection_data) list"
  clients :: "connection list"
  outbox :: "(nat \<times> server_msg) list"

definition server_start :: server where
  "server_start = \<lparr>rooms = [], userConnections = [], clients = [], outbox = []\<rparr>"

definition getOrCreateRoom :: "int \<Rightarrow> string \<Rightarrow> server \<Rightarrow> Room \<times> server" where
  "getOrCreateRoom now rid s =
     (case map_of (rooms s) rid of
        Some r \<Rightarrow> (r, s)
      | None \<Rightarrow> (new_Room rid now, s\<lparr>rooms := AList.update rid (new_Room rid now) (rooms s)\<rparr>))"

text \<open>The room objects are mutated in place: the registry entry under the same key changes.\<close>

definition put_room :: "string \<Rightarrow> Room \<Rightarrow> server \<Rightarrow> server" where
  "put_room rid r s = s\<lparr>rooms := AList.update rid r (rooms s)\<rparr>"

definition addUserConnection :: "js_id \<Rightarrow> connection_data \<Rightarrow> server \<Rightarrow> server" where
  "addUserConnection uid cd s = s\<lparr>userConnections := AList.update uid cd (userConnections s)\<rparr>"

definition removeUserConnection :: "js_id \<Rightarrow> server \<Rightarrow> server" where
  "removeUserConnection uid s = s\<lparr>userConnections := AList.delete uid (userConnections s)\<rparr>"

definition ws_send :: "nat \<Rightarrow> server_msg \<Rightarrow> server \<Rightarrow> server" where
  "ws_send wid m s = s\<lparr>outbox := outbox s @ [(wid, m)]\<rparr>"

text \<open>
  \<^verbatim>\<open>getRoomClients\<close>: the sockets of \<^verbatim>\<open>wss.clients\<close> for which
  \<^verbatim>\<open>userConnections.get(client.userId)\<close> finds an entry of this room and which are OPEN. The
  lookup runs for a socket without id too, under the key \<^verbatim>\<open>undefined\<close>.
\<close>

definition getRoomClients :: "string \<Rightarrow> server \<Rightarrow> connection list" where
  "getRoomClients rid s =
     filter (\<lambda>client. case map_of (userConnections s) (ws_userId client) of
                        None \<Rightarrow> False
                      | Some userData \<Rightarrow> cd_roomId userData = rid \<and> ws_readyState client = 1)
            (clients s)"

definition broadcast_one :: "server_msg \<Rightarrow> js_id \<Rightarrow> connection \<Rightarrow> server \<Rightarrow> server" where
  "broadcast_one m excludeUserId client s =
     (if excludeUserId = Null \<or> ws_userId client \<noteq> excludeUserId
      then (if ws_readyState client = 1 then ws_send (ws_id client) m s else s)
      else s)"

text \<open>
  \<^verbatim>\<open>broadcastToRoom(roomId, message, wss, excludeUserId = null)\<close>; the last argument is what
  the caller passes, \<^verbatim>\<open>undefined\<close> when it passes none.
\<close>

definition broadcastToRoom :: "string \<Rightarrow> server_msg \<Rightarrow> js_id \<Rightarrow> server \<Rightarrow> server" where
  "broadcastToRoom rid m arg s =
     (let excludeUserId = default_null arg
      in fold (broadcast_one m excludeUserId) (getRoomClients rid s) s)"

section \<open>Server: message handlers (server.js)\<close>

definition find_conn :: "nat \<Rightarrow> server \<Rightarrow> connection option" where
  "find_conn wid s = find (\<lambda>c. ws_id c = wid) (clients s)"

definition upd_conn :: "nat \<Rightarrow> (connection \<Rightarrow> connection) \<Rightarrow> server \<Rightarrow> server" where
  "upd_conn wid f s = s\<lparr>clients := map (\<lambda>c. if ws_id c = wid then f c else c) (clients s)\<rparr>"

definition handleUserJoin :: "int \<Rightarrow> nat \<Rightarrow> string \<Rightarrow> js_id \<Rightarrow> string \<Rightarrow> string \<Rightarrow> server \<Rightarrow> server" where
  "handleUserJoin now wid room m_userId m_userName m_userColor s =
     (let ud = \<lparr>ud_userId = m_userId, ud_userName = m_userName, ud_userColor = m_userColor,
                ud_joinedAt = now\<rparr>;
          s1 = upd_conn wid (\<lambda>c. c\<lparr>c_userId := m_userId, c_userData := Some ud\<rparr>) s;
          (room0, s2) = getOrCreateRoom now room s1;
          room' = addUser m_userId ud room0;
          s3 = put_room room room' s2;
          s4 = addUserConnection m_userId
                 \<lparr>cd_ws = wid, cd_userId = m_userId, cd_userData = ud, cd_roomId = room\<rparr> s3;
          s5 = upd_conn wid (\<lambda>c. c\<lparr>ws_userId := m_userId\<rparr>) s4;
          s6 = ws_send wid (UserList (getUsers room')) s5;
          hist = getDrawingHistory room';
          s7 = (if length hist > 0 then ws_send wid (DrawingHistory hist) s6 else s6);
          s8 = ws_send wid (SyncComplete (length hist)) s7
      in broadcastToRoom room (UserJoined m_userId m_userName m_userColor) m_userId s8)"

text \<open>\<^verbatim>\<open>if (!userId) return\<close> on the closure's \<^verbatim>\<open>userId\<close>, then the work.\<close>

definition handleDrawing :: "int \<Rightarrow> connection \<Rightarrow> operation list option \<Rightarrow> int \<Rightarrow> server \<Rightarrow> server" where
  "handleDrawing now c m_operations m_timestamp s =
     (if \<not> truthy (c_userId c) then s
      else (let (room0, s1) = getOrCreateRoom now (c_roomId c) s
            in (case m_operations of
                  None \<Rightarrow> s1
                | Some ops \<Rightarrow>
                    broadcastToRoom (c_roomId c) (DrawingFrom (c_userId c) ops m_timestamp)
                      (c_userId c)
                      (put_room (c_roomId c) (addDrawingOperation now ops room0) s1))))"

definition handleCursorMove :: "connection \<Rightarrow> int \<Rightarrow> int \<Rightarrow> int \<Rightarrow> server \<Rightarrow> server" where
  "handleCursorMove c m_x m_y m_timestamp s =
     (if \<not> truthy (c_userId c) then s
      else broadcastToRoom (c_roomId c) (CursorFrom (c_userId c) m_x m_y m_timestamp)
             (c_userId c) s)"

definition handlePing :: "nat \<Rightarrow> server \<Rightarrow> server" where
  "handlePing wid s = ws_send wid Pong s"

definition handleCanvasSync :: "int \<Rightarrow> connection \<Rightarrow> server \<Rightarrow> server" where
  "handleCanvasSync now c s =
     (let (room', s1) = getOrCreateRoom now (c_roomId c) s
      in ws_send (ws_id c) (SyncCompleteHistory (getDrawingHistory room') now) s1)"

text \<open>
  \<^verbatim>\<open>ws.on('message')\<close>: the \<^verbatim>\<open>switch\<close> on the type, inside the \<^verbatim>\<open>try\<close>. A socket that is
  not among the server's sockets delivers nothing.
\<close>

definition on_message :: "int \<Rightarrow> nat \<Rightarrow> client_msg \<Rightarrow> server \<Rightarrow> server" where
  "on_message now wid msg s =
     (case find_conn wid s of
        None \<Rightarrow> s
      | Some c \<Rightarrow>
          (case msg of
             UserJoin u n col \<Rightarrow> handleUserJoin now wid (c_roomId c) u n col s
           | Drawing u ops ts \<Rightarrow> handleDrawing now c ops ts s
           | CursorMove u px py ts \<Rightarrow> handleCursorMove c px py ts s
           | Ping \<Rightarrow> handlePing wid s
           | CanvasSync \<Rightarrow> handleCanvasSync now c s
           | UnknownType t \<Rightarrow> s
           | Malformed \<Rightarrow> s))"

text \<open>
  \<^verbatim>\<open>ws.on('close')\<close>. The socket library drops the socket from \<^verbatim>\<open>wss.clients\<close> in its own
  close listener, registered before the application's, so the handler runs with the
  socket already gone from the set. \<^verbatim>\<open>userData?.userName || 'Unknown'\<close> falls back on an
  empty name too.
\<close>

definition on_close :: "int \<Rightarrow> nat \<Rightarrow> server \<Rightarrow> server" where
  "on_close now wid s =
     (case find_conn wid s of
        None \<Rightarrow> s
      | Some c \<Rightarrow>
          (let s0 = s\<lparr>clients := filter (\<lambda>c'. ws_id c' \<noteq> wid) (clients s)\<rparr>
           in if \<not> truthy (c_userId c) then s0
              else (let (room0, s1) = getOrCreateRoom now (c_roomId c) s0;
                        s2 = put_room (c_roomId c) (removeUser (c_userId c) room0) s1;
                        nm = (case c_userData c of
                                None \<Rightarrow> ''Unknown''
                              | Some ud \<Rightarrow> if ud_userName ud = [] then ''Unknown''
                                           else ud_userName ud);
                        s3 = broadcastToRoom (c_roomId c) (UserLeft (c_userId c) nm) Undefined s2
                    in removeUserConnection (c_userId c) s3)))"

text \<open>
  \<^verbatim>\<open>wss.on('connection')\<close>: a new open socket with a fresh closure; adding a socket that
  the set already holds changes nothing.
\<close>

definition on_connection :: "nat \<Rightarrow> server \<Rightarrow> server" where
  "on_connection wid s =
     (case find_conn wid s of
        Some c \<Rightarrow> s
      | None \<Rightarrow> s\<lparr>clients := clients s @
                 [\<lparr>ws_id = wid, ws_userId = Undefined, ws_readyState = 1, c_roomId = ''default'',
                   c_userId = Null, c_userData = None\<rparr>]\<rparr>)"

text \<open>The event loop: one event at a time, each handled to completion, each with its clock.\<close>

datatype server_event = Connection nat | Message nat client_msg | Close nat

fun server_step :: "server \<Rightarrow> int \<times> server_event \<Rightarrow> server" where
  "server_step s (now, Connection wid) = on_connection wid s"
| "server_step s (now, Message wid msg) = on_message now wid msg s"
| "server_step s (now, Close wid) = on_close now wid s"

definition server_run :: "(int \<times> server_event) list \<Rightarrow> server \<Rightarrow> server" where
  "server_run evs s = foldl server_step s evs"

text \<open>The participant ids a room holds (none for a room that does not exist yet).\<close>

definition participants :: "string \<Rightarrow> server \<Rightarrow> js_id list" where
  "participants rid s = (case map_of (rooms s) rid of None \<Rightarrow> [] | Some r \<Rightarrow> map fst (users r))"

text \<open>The log a room holds (empty for a room that does not exist yet).\<close>

definition room_log :: "string \<Rightarrow> server \<Rightarrow> operation list" where
  "room_log rid s = (case map_of (rooms s) rid of None \<Rightarrow> [] | Some r \<Rightarrow> getDrawingHistory r)"

text \<open>
  The ids under which the sockets still held by the server have joined a room: the closure's
  \<^verbatim>\<open>userId\<close> of every socket on which it is no longer \<^verbatim>\<open>null\<close>.
\<close>

definition joined_ids :: "string \<Rightarrow> server \<Rightarrow> js_id list" where
  "joined_ids rid s =
     map c_userId (filter (\<lambda>c. c_userId c \<noteq> Null \<and> c_roomId c = rid) (clients s))"

text \<open>The entries of a room's \<^verbatim>\<open>users\<close> map and its participant records, in join order.\<close>

definition room_entries :: "string \<Rightarrow> server \<Rightarrow> (js_id \<times> user_data) list" where
  "room_entries rid s = (case map_of (rooms s) rid of None \<Rightarrow> [] | Some r \<Rightarrow> users r)"

definition room_users :: "string \<Rightarrow> server \<Rightarrow> user_data list" where
  "room_users rid s = (case map_of (rooms s) rid of None \<Rightarrow> [] | Some r \<Rightarrow> getUsers r)"

section \<open>Server: joins the registry can account for\<close>

text \<open>The ids under which the sockets still held by the server have joined, in any room.\<close>

definition open_ids :: "server \<Rightarrow> js_id list" where
  "open_ids s = map c_userId (filter (\<lambda>c. c_userId c \<noteq> Null) (clients s))"

text \<open>
  A join the registry can account for: its id is a non-empty string, and either the socket
  has not joined yet and no socket still held has joined under that id (a first join), or
  the id is the one this socket joined under before (a repeat).
\<close>

definition join_admissible :: "server \<Rightarrow> nat \<Rightarrow> js_id \<Rightarrow> bool" where
  "join_admissible s wid u =
     (case find_conn wid s of
        None \<Rightarrow> True
      | Some c \<Rightarrow> truthy u \<and> (if c_userId c = Null then u \<notin> set (open_ids s)
                               else c_userId c = u))"

fun event_admissible :: "server \<Rightarrow> int \<times> server_event \<Rightarrow> bool" where
  "event_admissible s (now, Message wid (UserJoin u n col)) = join_admissible s wid u"
| "event_admissible s e = True"

text \<open>An event sequence every join of which is such a join, in the state it arrives in.\<close>

fun admissible :: "server \<Rightarrow> (int \<times> server_event) list \<Rightarrow> bool" where
  "admissible s [] = True"
| "admissible s (e # es) = (event_admissible s e \<and> admissible (server_step s e) es)"

text \<open>What a join does to the socket it arrives on, and to no other.\<close>

definition join_conn :: "nat \<Rightarrow> js_id \<Rightarrow> user_data \<Rightarrow> connection \<Rightarrow> connection" where
  "join_conn wid u ud c =
     (if ws_id c = wid then c\<lparr>ws_userId := u, c_userId := u, c_userData := Some ud\<rparr> else c)"

text \<open>The invariant behind the correspondence of participants and sockets, and its parts.\<close>

definition ids_of :: "connection list \<Rightarrow> js_id set" where
  "ids_of cs = {u. u \<noteq> Null \<and> (\<exists>c\<in>set cs. c_userId c = u)}"

definition ids_unique :: "connection list \<Rightarrow> bool" where
  "ids_unique cs =
     (\<forall>c\<in>set cs. \<forall>c'\<in>set cs. c_userId c = c_userId c' \<longrightarrow> c_userId c = Null \<or> ws_id c = ws_id c')"

definition room_inv :: "server \<Rightarrow> bool" where
  "room_inv s =
     (set (participants ''default'' s) = ids_of (clients s)
      \<and> (\<forall>c\<in>set (clients s). c_roomId c = ''default'')
      \<and> distinct (map ws_id (clients s))
      \<and> ids_unique (clients s)
      \<and> (\<forall>u\<in>ids_of (clients s). truthy u)
      \<and> fst ` set (rooms s) \<subseteq> {''default''})"

section \<open>Client: snapshot history (canvas.js)\<close>

text \<open>
  The pixel content of the drawing surface is opaque: \<open>None\<close> is the empty surface that a
  full \<^verbatim>\<open>clearRect\<close> leaves, \<open>Some p\<close> any other content. Rendering a stroke is a primitive
  of the surface, so the content it produces comes with the pointer event.
\<close>

type_synonym 'px image = "'px option"

record 'px CanvasDrawing =
  isDrawing :: bool
  currentTool :: string
  currentColor :: string
  strokeWidth :: int
  history :: "'px image list"
  historyStep :: nat
  maxHistorySteps :: nat
  drawingBuffer :: "operation list"
  lastSyncTime :: int
  batchInterval :: int
  surface :: "'px image"

text \<open>
  \<^verbatim>\<open>saveHistory\<close>: \<^verbatim>\<open>slice(0, historyStep + 1)\<close>, push the captured surface, then either
  \<^verbatim>\<open>shift\<close> (over the cap, \<^verbatim>\<open>historyStep\<close> untouched) or \<^verbatim>\<open>historyStep++\<close>.
\<close>

definition saveHistory :: "'px CanvasDrawing \<Rightarrow> 'px CanvasDrawing" where
  "saveHistory c =
     (let h = take (historyStep c + 1) (history c) @ [surface c]
      in if length h > maxHistorySteps c
         then c\<lparr>history := tl h\<rparr>
         else c\<lparr>history := h, historyStep := historyStep c + 1\<rparr>)"

text \<open>
  \<^verbatim>\<open>redrawFromHistory\<close>: clear, then restore \<^verbatim>\<open>history[historyStep]\<close> when that entry exists
  (an index past the end reads \<^verbatim>\<open>undefined\<close>, which is falsy).
\<close>

definition redrawFromHistory :: "'px CanvasDrawing \<Rightarrow> 'px CanvasDrawing" where
  "redrawFromHistory c =
     (if historyStep c < length (history c)
      then c\<lparr>surface := history c ! historyStep c\<rparr>
      else c\<lparr>surface := None\<rparr>)"

definition redo :: "'px CanvasDrawing \<Rightarrow> 'px CanvasDrawing" where
  "redo c =
     (if int (historyStep c) < int (length (history c)) - 1
      then redrawFromHistory (c\<lparr>historyStep := historyStep c + 1\<rparr>)
      else c)"

text \<open>The constructor: the fields as assigned, then the first \<^verbatim>\<open>saveHistory\<close> on the empty surface.\<close>

definition CanvasDrawing_fields :: "int \<Rightarrow> 'px CanvasDrawing" where
  "CanvasDrawing_fields now =
     \<lparr>isDrawing = False, currentTool = ''brush'', currentColor = ''#000000'', strokeWidth = 3,
      history = [], historyStep = 0, maxHistorySteps = 50,
      drawingBuffer = [], lastSyncTime = now, batchInterval = 50, surface = None\<rparr>"

definition new_CanvasDrawing :: "int \<Rightarrow> 'px CanvasDrawing" where
  "new_CanvasDrawing now = saveHistory (CanvasDrawing_fields now)"

text \<open>
  The history members that the body of class \<^verbatim>\<open>CanvasDrawing\<close> defines (canvas.js, lines
  437 to 503), by name. The class defines no other history member and nothing assigns one
  later: \<^verbatim>\<open>window.canvas.undo\<close> reads \<^verbatim>\<open>undefined\<close>.
\<close>

definition CanvasDrawing_member :: "string \<Rightarrow> ('px CanvasDrawing \<Rightarrow> 'px CanvasDrawing) option" where
  "CanvasDrawing_member name =
     (if name = ''redo'' then Some redo
      else if name = ''saveHistory'' then Some saveHistory
      else if name = ''redrawFromHistory'' then Some redrawFromHistory
      else None)"

section \<open>Client: connection manager (websocket.js)\<close>

text \<open>
  \<^verbatim>\<open>sent\<close> lists the messages handed to the socket, \<^verbatim>\<open>reconnectTimers\<close> the delay of every
  \<^verbatim>\<open>setTimeout(() => this.connect(), ...)\<close> so far, \<^verbatim>\<open>socketsOpened\<close> and \<^verbatim>\<open>pingIntervals\<close>
  count the \<^verbatim>\<open>new WebSocket\<close> and \<^verbatim>\<open>setInterval\<close> calls; \<^verbatim>\<open>readyState\<close> is that of
  \<^verbatim>\<open>this.ws\<close> (0 CONNECTING, 1 OPEN, 3 CLOSED).
\<close>

record WebSocketManager =
  userId :: string
  userName :: string
  userColor :: string
  isConnected :: bool
  reconnectAttempts :: nat
  maxReconnectAttempts :: nat
  reconnectDelay :: nat
  wm_drawingBuffer :: "operation list"
  lastFlushTime :: int
  flushInterval :: int
  readyState :: nat
  sent :: "client_msg list"
  reconnectTimers :: "nat list"
  socketsOpened :: nat
  pingIntervals :: nat

text \<open>\<^verbatim>\<open>connect\<close>: a new socket, CONNECTING, takes the place of \<^verbatim>\<open>this.ws\<close>.\<close>

definition connect :: "WebSocketManager \<Rightarrow> WebSocketManager" where
  "connect w = w\<lparr>readyState := 0, socketsOpened := socketsOpened w + 1\<rparr>"

text \<open>The constructor; the generated id and colour are its arguments.\<close>

definition new_WebSocketManager :: "int \<Rightarrow> string \<Rightarrow> string \<Rightarrow> WebSocketManager" where
  "new_WebSocketManager now uid col =
     connect \<lparr>userId = uid, userName = ''User-'' @ take 4 uid, userColor = col,
              isConnected = False, reconnectAttempts = 0, maxReconnectAttempts = 5,
              reconnectDelay = 3000, wm_drawingBuffer = [], lastFlushTime = now,
              flushInterval = 50, readyState = 3, sent = [], reconnectTimers = [],
              socketsOpened = 0, pingIntervals = 0\<rparr>"

definition send :: "client_msg \<Rightarrow> WebSocketManager \<Rightarrow> WebSocketManager" where
  "send m w = (if isConnected w \<and> readyState w = 1 then w\<lparr>sent := sent w @ [m]\<rparr> else w)"

definition startPing :: "WebSocketManager \<Rightarrow> WebSocketManager" where
  "startPing w = w\<lparr>pingIntervals := pingIntervals w + 1\<rparr>"

definition handleOpen :: "WebSocketManager \<Rightarrow> WebSocketManager" where
  "handleOpen w =
     startPing (send (UserJoin (Str (userId w)) (userName w) (userColor w))
                  (w\<lparr>isConnected := True, reconnectAttempts := 0\<rparr>))"

definition attemptReconnect :: "WebSocketManager \<Rightarrow> WebSocketManager" where
  "attemptReconnect w =
     (if reconnectAttempts w < maxReconnectAttempts w
      then w\<lparr>reconnectAttempts := reconnectAttempts w + 1,
             reconnectTimers := reconnectTimers w @ [reconnectDelay w]\<rparr>
      else w)"

definition handleClose :: "WebSocketManager \<Rightarrow> WebSocketManager" where
  "handleClose w = attemptReconnect (w\<lparr>isConnected := False\<rparr>)"

definition flushDrawingBuffer :: "int \<Rightarrow> WebSocketManager \<Rightarrow> WebSocketManager" where
  "flushDrawingBuffer now w =
     (if length (wm_drawingBuffer w) = 0 then w
      else (send (Drawing (userId w) (Some (wm_drawingBuffer w)) now) w)
             \<lparr>wm_drawingBuffer := [], lastFlushTime := now\<rparr>)"

definition sendDrawing :: "int \<Rightarrow> operation \<Rightarrow> WebSocketManager \<Rightarrow> WebSocketManager" where
  "sendDrawing now operation w =
     (let w1 = w\<lparr>wm_drawingBuffer := wm_drawingBuffer w @ [operation]\<rparr>
      in if now - lastFlushTime w1 > flushInterval w1 then flushDrawingBuffer now w1 else w1)"

definition sendCursorMove :: "int \<Rightarrow> int \<Rightarrow> int \<Rightarrow> WebSocketManager \<Rightarrow> WebSocketManager" where
  "sendCursorMove now px py w = send (CursorMove (userId w) px py now) w"

text \<open>The transport's events: the socket reaches OPEN or CLOSED, then the listener runs.\<close>

definition ws_open :: "WebSocketManager \<Rightarrow> WebSocketManager" where
  "ws_open w = handleOpen (w\<lparr>readyState := 1\<rparr>)"

definition ws_closed :: "WebSocketManager \<Rightarrow> WebSocketManager" where
  "ws_closed w = handleClose (w\<lparr>readyState := 3\<rparr>)"

section \<open>Client: pointer gestures and controls (canvas.js with the overrides of main.js)\<close>

record 'px client =
  canvas :: "'px CanvasDrawing"
  wsManager :: WebSocketManager

definition new_client :: "int \<Rightarrow> string \<Rightarrow> string \<Rightarrow> 'px client" where
  "new_client now uid col =
     \<lparr>canvas = new_CanvasDrawing now, wsManager = new_WebSocketManager now uid col\<rparr>"

text \<open>
  \<^verbatim>\<open>window.canvas.emitDrawing\<close> as main.js replaces it: every buffered operation goes to
  \<^verbatim>\<open>wsManager.sendDrawing\<close>, then the canvas buffer is emptied.
\<close>

definition emitDrawing :: "int \<Rightarrow> 'px client \<Rightarrow> 'px client" where
  "emitDrawing now cl =
     (if length (drawingBuffer (canvas cl)) > 0
      then cl\<lparr>wsManager := fold (sendDrawing now) (drawingBuffer (canvas cl)) (wsManager cl),
              canvas := (canvas cl)\<lparr>drawingBuffer := []\<rparr>\<rparr>
      else cl)"

definition emitMouseMove :: "int \<Rightarrow> int \<Rightarrow> int \<Rightarrow> 'px client \<Rightarrow> 'px client" where
  "emitMouseMove now px py cl = cl\<lparr>wsManager := sendCursorMove now px py (wsManager cl)\<rparr>"

definition pointer_op :: "string \<Rightarrow> int \<Rightarrow> int \<Rightarrow> int \<Rightarrow> 'px CanvasDrawing \<Rightarrow> operation" where
  "pointer_op ty now px py c =
     \<lparr>op_type = ty, op_x = Some px, op_y = Some py, op_tool = Some (currentTool c),
      op_color = Some (currentColor c), op_width = Some (strokeWidth c), op_timestamp = now\<rparr>"

definition clear_op :: "int \<Rightarrow> operation" where
  "clear_op now =
     \<lparr>op_type = ''clear'', op_x = None, op_y = None, op_tool = None, op_color = None,
      op_width = None, op_timestamp = now\<rparr>"

definition startDrawing :: "int \<Rightarrow> bool \<Rightarrow> int \<Rightarrow> int \<Rightarrow> 'px client \<Rightarrow> 'px client" where
  "startDrawing now eyedropper px py cl =
     (if eyedropper then cl
      else emitMouseMove now px py
             (cl\<lparr>canvas := (canvas cl)
                   \<lparr>isDrawing := True,
                    drawingBuffer := drawingBuffer (canvas cl)
                                     @ [pointer_op ''start'' now px py (canvas cl)]\<rparr>\<rparr>))"

definition draw :: "int \<Rightarrow> int \<Rightarrow> int \<Rightarrow> 'px image \<Rightarrow> 'px client \<Rightarrow> 'px client" where
  "draw now px py rendered cl =
     (if \<not> isDrawing (canvas cl) then cl
      else (let c1 = (canvas cl)
                  \<lparr>surface := rendered,
                   drawingBuffer := drawingBuffer (canvas cl)
                                    @ [pointer_op ''draw'' now px py (canvas cl)]\<rparr>;
                cl1 = cl\<lparr>canvas := c1\<rparr>;
                cl2 = (if now - lastSyncTime c1 > batchInterval c1
                       then (let cl' = emitDrawing now cl1
                             in cl'\<lparr>canvas := (canvas cl')\<lparr>lastSyncTime := now\<rparr>\<rparr>)
                       else cl1)
            in emitMouseMove now px py cl2))"

definition stopDrawing :: "int \<Rightarrow> 'px client \<Rightarrow> 'px client" where
  "stopDrawing now cl =
     (if \<not> isDrawing (canvas cl) then cl
      else (let cl1 = cl\<lparr>canvas := (canvas cl)\<lparr>isDrawing := False\<rparr>\<rparr>;
                cl2 = (if length (drawingBuffer (canvas cl1)) > 0
                       then (let cl' = emitDrawing now cl1
                             in cl'\<lparr>canvas := (canvas cl')\<lparr>lastSyncTime := now\<rparr>\<rparr>)
                       else cl1)
            in cl2\<lparr>canvas := saveHistory ((canvas cl2)\<lparr>drawingBuffer := []\<rparr>)\<rparr>))"

definition clearCanvas :: "int \<Rightarrow> 'px client \<Rightarrow> 'px client" where
  "clearCanvas now cl =
     cl\<lparr>canvas := saveHistory ((canvas cl)\<lparr>surface := None\<rparr>),
        wsManager := sendDrawing now (clear_op now) (wsManager cl)\<rparr>"

text \<open>
  The undo and redo controls of main.js (button and keyboard alike):
  \<^verbatim>\<open>if (window.canvas && window.canvas[name]) window.canvas[name]()\<close>.
\<close>

definition history_control :: "string \<Rightarrow> 'px client \<Rightarrow> 'px client" where
  "history_control name cl =
     (case CanvasDrawing_member name of
        None \<Rightarrow> cl
      | Some member \<Rightarrow> cl\<lparr>canvas := member (canvas cl)\<rparr>)"

text \<open>
  What can happen to a client, each with the clock reading its handler sees: pointer down
  (with the eyedropper flag and the coordinates), pointer move (coordinates and the
  rendered surface), pointer release or leave, the clear, undo and redo controls, the
  socket opening or closing, and a reconnect timer firing.
\<close>

datatype 'px client_event =
    MouseDown bool int int
  | MouseMove int int "'px image"
  | MouseUp
  | ClearClick
  | UndoClick
  | RedoClick
  | WsOpen
  | WsClose
  | TimerFires

fun client_step :: "'px client \<Rightarrow> int \<times> 'px client_event \<Rightarrow> 'px client" where
  "client_step cl (now, MouseDown eyedropper px py) = startDrawing now eyedropper px py cl"
| "client_step cl (now, MouseMove px py rendered) = draw now px py rendered cl"
| "client_step cl (now, MouseUp) = stopDrawing now cl"
| "client_step cl (now, ClearClick) = clearCanvas now cl"
| "client_step cl (now, UndoClick) = history_control ''undo'' cl"
| "client_step cl (now, RedoClick) = history_control ''redo'' cl"
| "client_step cl (now, WsOpen) = cl\<lparr>wsManager := ws_open (wsManager cl)\<rparr>"
| "client_step cl (now, WsClose) = cl\<lparr>wsManager := ws_closed (wsManager cl)\<rparr>"
| "client_step cl (now, TimerFires) = cl\<lparr>wsManager := connect (wsManager cl)\<rparr>"

definition client_run :: "(int \<times> 'px client_event) list \<Rightarrow> 'px client \<Rightarrow> 'px client" where
  "client_run evs cl = foldl client_step cl evs"

text \<open>The \<^verbatim>\<open>drawing\<close> messages among those a client has sent.\<close>

fun is_drawing_msg :: "client_msg \<Rightarrow> bool" where
  "is_drawing_msg (Drawing u ops ts) = True"
| "is_drawing_msg m = False"

text \<open>The part of the connection manager that the reconnection policy reads and writes.\<close>

definition rc :: "WebSocketManager \<Rightarrow> bool \<times> nat \<times> nat \<times> nat \<times> nat list" where
  "rc w = (isConnected w, reconnectAttempts w, maxReconnectAttempts w, reconnectDelay w,
           reconnectTimers w)"

text \<open>What holds of that part in every state a client can reach.\<close>

definition reconnect_inv :: "WebSocketManager \<Rightarrow> bool" where
  "reconnect_inv w =
     (maxReconnectAttempts w = 5 \<and> reconnectDelay w = 3000 \<and> reconnectAttempts w \<le> 5
      \<and> (if isConnected w then reconnectAttempts w = 0 else True))"

definition is_open_event :: "int \<times> 'px client_event \<Rightarrow> bool" where
  "is_open_event e = (case snd e of WsOpen \<Rightarrow> True | _ \<Rightarrow> False)"

section \<open>A small session, for concrete instances\<close>

definition example_op :: operation where
  "example_op = \<lparr>op_type = ''draw'', op_x = Some 10, op_y = Some 20, op_tool = Some ''brush'',
              op_color = Some ''#000000'', op_width = Some 3, op_timestamp = 2\<rparr>"

text \<open>Socket 1 has joined as A and drawn one operation; socket 2 is connected, not joined.\<close>

definition example_server :: server where
  "example_server = server_run
     [(1, Connection 1), (2, Message 1 (UserJoin (Str ''A'') ''Ann'' ''#FF6B6B'')),
      (3, Message 1 (Drawing ''A'' (Some [example_op]) 2)), (4, Connection 2)] server_start"

text \<open>A socket as \<^verbatim>\<open>wss.on('connection')\<close> first sees it.\<close>

definition fresh_socket :: "nat \<Rightarrow> connection" where
  "fresh_socket wid = \<lparr>ws_id = wid, ws_userId = Undefined, ws_readyState = 1,
                        c_roomId = ''default'', c_userId = Null, c_userData = None\<rparr>"

text \<open>Socket 2 has joined as B as well.\<close>

definition example_pair :: server where
  "example_pair = on_message 5 2 (UserJoin (Str ''B'') ''Bob'' ''#4ECDC4'') example_server"


text \<open>A \<^verbatim>\<open>user_join\<close> message that lacks the \<^verbatim>\<open>userId\<close> field.\<close>

definition missing_id :: client_msg where
  "missing_id = UserJoin Undefined ''Bob'' ''#4ECDC4''"

text \<open>An operation left of and far below any drawing surface.\<close>

definition stray_op :: operation where
  "stray_op = \<lparr>op_type = ''draw'', op_x = Some (- 5), op_y = Some 1000000, op_tool = Some ''brush'',
              op_color = Some ''#000000'', op_width = Some 3, op_timestamp = 6\<rparr>"

text \<open>A client built at time 0, pixel contents numbered.\<close>

definition example_client :: "nat client" where
  "example_client = new_client 0 ''user_0_abc'' ''#FF6B6B''"

text \<open>One stroke: press, one move that renders content 1, release.\<close>

definition one_stroke :: "(int \<times> nat client_event) list" where
  "one_stroke = [(1000, MouseDown False 5 5), (1100, MouseMove 6 6 (Some 1)), (1200, MouseUp)]"

text \<open>
  The socket opens at time 0; a stroke is pressed at 1000 ms, moved at 1100 ms and at
  1110 ms, and released at 1120 ms.
\<close>

definition short_stroke :: "(int \<times> nat client_event) list" where
  "short_stroke =
     [(0, WsOpen), (1000, MouseDown False 5 5), (1100, MouseMove 6 6 (Some 1)),
      (1110, MouseMove 7 7 (Some 2)), (1120, MouseUp)]"

text \<open>The socket opens once; then six closes follow, a reconnect timer firing between them.\<close>

definition joined_once :: "(int \<times> nat client_event) list" where
  "joined_once = [(0, WsOpen)]"

definition six_failures :: "(int \<times> nat client_event) list" where
  "six_failures =
     [(100, WsClose), (3100, TimerFires), (3200, WsClose), (6200, TimerFires),
      (6300, WsClose), (9300, TimerFires), (9400, WsClose), (12400, TimerFires),
      (12500, WsClose), (15500, TimerFires), (15600, WsClose)]"

text \<open>
  Three sessions that end with a close: a socket that joins as A and then again as B; two
  sockets that both join as A; a socket that joins under the empty id. And one in which
  every join is a first join or a repeat.
\<close>

definition duplicate_join :: "(int \<times> server_event) list" where
  "duplicate_join =
     [(1, Connection 1), (2, Message 1 (UserJoin (Str ''A'') ''Ann'' ''#FF6B6B'')),
      (3, Message 1 (UserJoin (Str ''B'') ''Ann'' ''#FF6B6B'')), (4, Close 1)]"

definition shared_id :: "(int \<times> server_event) list" where
  "shared_id =
     [(1, Connection 1), (2, Connection 2), (3, Message 1 (UserJoin (Str ''A'') ''Ann'' ''#FF6B6B'')),
      (4, Message 2 (UserJoin (Str ''A'') ''Ann'' ''#FF6B6B'')), (5, Close 1)]"

definition empty_id :: "(int \<times> server_event) list" where
  "empty_id = [(1, Connection 1), (2, Message 1 (UserJoin (Str []) ''Ann'' ''#FF6B6B'')), (3, Close 1)]"

definition orderly_session :: "(int \<times> server_event) list" where
  "orderly_session =
     [(1, Connection 1), (2, Message 1 (UserJoin (Str ''A'') ''Ann'' ''#FF6B6B'')),
      (3, Connection 2), (4, Message 2 (UserJoin (Str ''B'') ''Bob'' ''#4ECDC4'')),
      (5, Message 1 (UserJoin (Str ''A'') ''Ann'' ''#FF6B6B'')), (6, Close 1)]"

section \<open>Operation log: bound and replay\<close>

lemma addDrawingOperation_max [simp]:
  "maxHistorySize (addDrawingOperation now operations r) = maxHistorySize r"
  by (simp add: addDrawingOperation_def Let_def)

lemma drop_suffix_window:
  "drop (length (drop (length a - N) a @ b) - N) (drop (length a - N) a @ b)
     = drop (length (a @ b) - N) (a @ b)"
proof (cases "length a \<le> N")
  case True
  then show ?thesis by simp
next
  case False
  then have "length (drop (length a - N) a @ b) - N = length b" by simp
  moreover from False have "length (a @ b) - N = (length a - N) + length b" by simp
  ultimately show ?thesis by (simp add: add.commute)
qed

lemma addDrawingOperation_window:
  assumes "maxHistorySize r = N" "drawingHistory r = drop (length pre - N) pre" "0 < N"
  shows "drawingHistory (addDrawingOperation now operations r)
           = drop (length (pre @ map (stamp now) operations) - N) (pre @ map (stamp now) operations)"
proof -
  let ?b = "map (stamp now) operations"
  let ?h = "drop (length pre - N) pre @ ?b"
  have w: "drop (length ?h - N) ?h = drop (length (pre @ ?b) - N) (pre @ ?b)"
    by (rule drop_suffix_window)
  show ?thesis
  proof (cases "length ?h > N")
    case True
    with assms have "drawingHistory (addDrawingOperation now operations r) = drop (length ?h - N) ?h"
      by (simp add: addDrawingOperation_def Let_def slice_from_end_def)
    with w show ?thesis by simp
  next
    case False
    with assms have "drawingHistory (addDrawingOperation now operations r) = ?h"
      by (simp add: addDrawingOperation_def Let_def)
    moreover from False have "drop (length ?h - N) ?h = ?h" by simp
    ultimately show ?thesis using w by simp
  qed
qed

lemma append_calls_max [simp]: "maxHistorySize (append_calls cs r) = maxHistorySize r"
  by (induction cs r rule: append_calls.induct) simp_all

lemma append_calls_window:
  "maxHistorySize r = N \<Longrightarrow> drawingHistory r = drop (length pre - N) pre \<Longrightarrow> 0 < N \<Longrightarrow>
   drawingHistory (append_calls cs r)
     = drop (length (pre @ received cs) - N) (pre @ received cs)"
proof (induction cs arbitrary: r pre)
  case Nil
  then show ?case by simp
next
  case (Cons c cs)
  obtain now operations where c: "c = (now, operations)" by (cases c)
  let ?r = "addDrawingOperation now operations r"
  have "maxHistorySize ?r = N" using Cons.prems by simp
  moreover have "drawingHistory ?r
          = drop (length (pre @ map (stamp now) operations) - N) (pre @ map (stamp now) operations)"
    using Cons.prems by (rule addDrawingOperation_window)
  moreover note \<open>0 < N\<close>
  ultimately have "drawingHistory (append_calls cs ?r)
      = drop (length ((pre @ map (stamp now) operations) @ received cs) - N)
             ((pre @ map (stamp now) operations) @ received cs)"
    by (rule Cons.IH)
  then show ?case by (simp add: c)
qed

lemma replay_new_Room:
  "getDrawingHistory (append_calls cs (new_Room rid t0))
     = drop (length (received cs) - 1000) (received cs)"
proof -
  have "drawingHistory (append_calls cs (new_Room rid t0))
          = drop (length ([] @ received cs) - 1000) ([] @ received cs)"
    by (rule append_calls_window) (simp_all add: new_Room_def)
  then show ?thesis by (simp add: getDrawingHistory_def)
qed

lemma received_singletons:
  "received (map (\<lambda>i. (t i, [f i])) is) = map (\<lambda>i. stamp (t i) (f i)) is"
  by (induction "is") simp_all

lemma drop_upt_window: "drop 50 (map g [1..<1051]) = map g [51..<1051]"
proof -
  have "drop 50 [1..<1051] = [1 + 50..<1051]" by (rule drop_upt)
  moreover have "(1::nat) + 50 = 51" by simp
  ultimately have "drop 50 [1..<1051] = [51..<1051]" by (simp only:)
  then show ?thesis by (simp only: drop_map)
qed

lemma length_upt_window: "length (map g [1..<1051]) - 1000 = 50"
  by simp

text \<open>
  C1. Whatever append calls a fresh room's log has taken, it holds at most 1000 entries and
  replay is exactly the last \<open>min(total, 1000)\<close> operations received, in receipt order,
  each under its receipt stamp. After 1050 appends of one operation each, replay is
  operations 51..1050 in order.
\<close>

theorem C1_log_bounded_replay_suffix:
  "length (getDrawingHistory (append_calls cs (new_Room rid t0))) \<le> 1000
   \<and> length (getDrawingHistory (append_calls cs (new_Room rid t0))) = min (length (received cs)) 1000
   \<and> getDrawingHistory (append_calls cs (new_Room rid t0))
        = drop (length (received cs) - 1000) (received cs)
   \<and> getDrawingHistory (append_calls (map (\<lambda>i. (t i, [f i])) [1..<1051]) (new_Room rid t0))
        = map (\<lambda>i. stamp (t i) (f i)) [51..<1051]"
proof -
  let ?cs = "map (\<lambda>i. (t i, [f i])) [1..<1051]"
  have "getDrawingHistory (append_calls ?cs (new_Room rid t0))
          = drop (length (received ?cs) - 1000) (received ?cs)"
    by (rule replay_new_Room)
  also have "received ?cs = map (\<lambda>i. stamp (t i) (f i)) [1..<1051]"
    by (rule received_singletons)
  finally have scen: "getDrawingHistory (append_calls ?cs (new_Room rid t0))
        = map (\<lambda>i. stamp (t i) (f i)) [51..<1051]"
    by (simp only: length_upt_window drop_upt_window)
  have len: "length (drop (length (received cs) - 1000) (received cs)) \<le> 1000"
    "length (drop (length (received cs) - 1000) (received cs)) = min (length (received cs)) 1000"
    by simp_all
  show ?thesis
    using scen len by (simp only: replay_new_Room)
qed

section \<open>Broadcast fan-out\<close>

lemma fold_broadcast_one_outbox:
  "outbox (fold (broadcast_one m ex) cs s)
     = outbox s @ map (\<lambda>c. (ws_id c, m))
         (filter (\<lambda>c. (ex = Null \<or> ws_userId c \<noteq> ex) \<and> ws_readyState c = 1) cs)"
  by (induction cs arbitrary: s) (simp_all add: broadcast_one_def ws_send_def)

lemma fold_broadcast_one_frame:
  "rooms (fold (broadcast_one m ex) cs s) = rooms s
   \<and> userConnections (fold (broadcast_one m ex) cs s) = userConnections s
   \<and> clients (fold (broadcast_one m ex) cs s) = clients s"
  by (induction cs arbitrary: s) (simp_all add: broadcast_one_def ws_send_def)

lemma broadcastToRoom_frame [simp]:
  "rooms (broadcastToRoom rid m ex s) = rooms s"
  "userConnections (broadcastToRoom rid m ex s) = userConnections s"
  "clients (broadcastToRoom rid m ex s) = clients s"
  by (simp_all add: broadcastToRoom_def fold_broadcast_one_frame)

lemma default_null_Null: "default_null X = Null \<longleftrightarrow> X = Undefined \<or> X = Null"
  by (cases X) simp_all

lemma default_null_given: "X \<noteq> Undefined \<Longrightarrow> default_null X = X"
  by (cases X) simp_all

lemma skip_condition:
  "(default_null X = Null \<or> v \<noteq> default_null X) \<longleftrightarrow> (X = Undefined \<or> X = Null \<or> v \<noteq> X)"
  by (cases X) auto

lemma broadcastToRoom_outbox:
  "outbox (broadcastToRoom rid m X s)
     = outbox s @ map (\<lambda>c. (ws_id c, m))
         (filter (\<lambda>c. ws_readyState c = 1
                      \<and> map_option cd_roomId (map_of (userConnections s) (ws_userId c)) = Some rid
                      \<and> (X = Undefined \<or> X = Null \<or> ws_userId c \<noteq> X)) (clients s))"
  unfolding broadcastToRoom_def Let_def fold_broadcast_one_outbox getRoomClients_def filter_filter
    skip_condition
  by (rule arg_cong [where f = "\<lambda>xs. outbox s @ map (\<lambda>c. (ws_id c, m)) xs"], rule filter_cong)
    (auto split: option.splits)




section \<open>Messages before a join\<close>

text \<open>
  C10. A \<^verbatim>\<open>drawing\<close> or \<^verbatim>\<open>cursor_move\<close> message on a socket whose closure \<^verbatim>\<open>userId\<close> is
  still \<^verbatim>\<open>null\<close> leaves the whole server state as it was: no room is created, no log
  changes and nothing is sent.
\<close>

theorem C10_unjoined_ignored:
  assumes "find_conn wid s = Some c" and "c_userId c = Null"
  shows "on_message now wid (Drawing u ops ts) s = s
         \<and> on_message now wid (CursorMove u px py ts) s = s"
  using assms by (simp add: on_message_def handleDrawing_def handleCursorMove_def)

theorem C10_unjoined_ignored_witness:
  "find_conn 1 (on_connection 1 server_start) = Some (fresh_socket 1)
   \<and> c_userId (fresh_socket 1) = Null
   \<and> on_message 7 1 (Drawing ''a'' (Some []) 5) (on_connection 1 server_start)
       = on_connection 1 server_start
   \<and> on_message 7 1 (CursorMove ''a'' 3 4 5) (on_connection 1 server_start)
       = on_connection 1 server_start"
proof -
  have f: "find_conn 1 (on_connection 1 server_start) = Some (fresh_socket 1)"
    by (simp add: find_conn_def on_connection_def server_start_def fresh_socket_def)
  have n: "c_userId (fresh_socket 1) = Null"
    by (simp add: fresh_socket_def)
  show ?thesis
    using f n C10_unjoined_ignored [OF f n, of 7 "''a''" "Some []" 5 3 4] by simp
qed

section \<open>Joining a room\<close>

lemma getOrCreateRoom_result:
  assumes "getOrCreateRoom now rid s = (r, s2)"
  shows "map_of (rooms s2) rid = Some r"
    and "getDrawingHistory r = room_log rid s"
    and "map fst (users r) = participants rid s"
    and "clients s2 = clients s"
    and "userConnections s2 = userConnections s"
    and "outbox s2 = outbox s"
    and "\<And>k. k \<noteq> rid \<Longrightarrow> map_of (rooms s2) k = map_of (rooms s) k"
    and "users r = room_entries rid s"
    and "r = (case map_of (rooms s) rid of None \<Rightarrow> new_Room rid now | Some r0 \<Rightarrow> r0)"
    and "AList.update rid r' (rooms s2) = AList.update rid r' (rooms s)"
  using assms
  by (auto simp: getOrCreateRoom_def room_log_def participants_def new_Room_def room_entries_def
      getDrawingHistory_def update_conv' update_last split: option.splits)

lemma ws_send_frame [simp]:
  "rooms (ws_send wid m s) = rooms s"
  "userConnections (ws_send wid m s) = userConnections s"
  "clients (ws_send wid m s) = clients s"
  "outbox (ws_send wid m s) = outbox s @ [(wid, m)]"
  by (simp_all add: ws_send_def)

lemma upd_conn_frame [simp]:
  "rooms (upd_conn wid f s) = rooms s"
  "userConnections (upd_conn wid f s) = userConnections s"
  "outbox (upd_conn wid f s) = outbox s"
  "clients (upd_conn wid f s) = map (\<lambda>c. if ws_id c = wid then f c else c) (clients s)"
  by (simp_all add: upd_conn_def)

lemma put_room_frame [simp]:
  "rooms (put_room rid r s) = AList.update rid r (rooms s)"
  "userConnections (put_room rid r s) = userConnections s"
  "outbox (put_room rid r s) = outbox s"
  "clients (put_room rid r s) = clients s"
  by (simp_all add: put_room_def)

lemma addUserConnection_frame [simp]:
  "rooms (addUserConnection uid cd s) = rooms s"
  "userConnections (addUserConnection uid cd s) = AList.update uid cd (userConnections s)"
  "outbox (addUserConnection uid cd s) = outbox s"
  "clients (addUserConnection uid cd s) = clients s"
  by (simp_all add: addUserConnection_def)

lemma join_conn_simps [simp]:
  "ws_id (join_conn wid u ud c) = ws_id c"
  "c_roomId (join_conn wid u ud c) = c_roomId c"
  "ws_readyState (join_conn wid u ud c) = ws_readyState c"
  "c_userId (join_conn wid u ud c) = (if ws_id c = wid then u else c_userId c)"
  "ws_userId (join_conn wid u ud c) = (if ws_id c = wid then u else ws_userId c)"
  by (simp_all add: join_conn_def)

text \<open>The whole state a join leaves, in terms of the state it found.\<close>

lemma handleUserJoin_state:
  fixes now wid rid u n col s
  defines "ud \<equiv> \<lparr>ud_userId = u, ud_userName = n, ud_userColor = col, ud_joinedAt = now\<rparr>"
  defines "cd \<equiv> \<lparr>cd_ws = wid, cd_userId = u, cd_userData = ud, cd_roomId = rid\<rparr>"
  defines "r0 \<equiv> (case map_of (rooms s) rid of None \<Rightarrow> new_Room rid now | Some r \<Rightarrow> r)"
  defines "s' \<equiv> handleUserJoin now wid rid u n col s"
  shows "rooms s' = AList.update rid (r0\<lparr>users := AList.update u ud (room_entries rid s)\<rparr>) (rooms s)"
    and "userConnections s' = AList.update u cd (userConnections s)"
    and "clients s' = map (join_conn wid u ud) (clients s)"
    and "outbox s' = outbox s
           @ [(wid, UserList (map snd (AList.update u ud (room_entries rid s))))]
           @ (if room_log rid s = [] then [] else [(wid, DrawingHistory (room_log rid s))])
           @ [(wid, SyncComplete (length (room_log rid s)))]
           @ map (\<lambda>c'. (ws_id c', UserJoined u n col))
               (filter (\<lambda>c'. ws_readyState c' = 1
                    \<and> map_option cd_roomId (map_of (AList.update u cd (userConnections s)) (ws_userId c'))
                        = Some rid
                    \<and> (u = Undefined \<or> u = Null \<or> ws_userId c' \<noteq> u))
                  (map (join_conn wid u ud) (clients s)))"
proof -
  define s1 where "s1 = upd_conn wid (\<lambda>c. c\<lparr>c_userId := u, c_userData := Some ud\<rparr>) s"
  obtain room0 s2 where g: "getOrCreateRoom now rid s1 = (room0, s2)"
    by (cases "getOrCreateRoom now rid s1")
  define room' where "room' = addUser u ud room0"
  define s5 where "s5 = upd_conn wid (\<lambda>c. c\<lparr>ws_userId := u\<rparr>)
      (addUserConnection u cd (put_room rid room' s2))"
  define hist where "hist = getDrawingHistory room'"
  define s8 where "s8 = ws_send wid (SyncComplete (length hist))
      (if length hist > 0 then ws_send wid (DrawingHistory hist) (ws_send wid (UserList (getUsers room')) s5)
       else ws_send wid (UserList (getUsers room')) s5)"
  have s'_eq: "s' = broadcastToRoom rid (UserJoined u n col) u s8"
    using g
    by (simp add: s'_def handleUserJoin_def Let_def s8_def hist_def s5_def
        room'_def s1_def ud_def cd_def)
  note gr = getOrCreateRoom_result [OF g]
  have e1: "room_entries rid s1 = room_entries rid s" "room_log rid s1 = room_log rid s"
    "rooms s1 = rooms s"
    by (simp_all add: s1_def room_entries_def room_log_def)
  have room0: "room0 = r0" using gr(9) by (simp add: r0_def e1)
  have room'_eq: "room' = r0\<lparr>users := AList.update u ud (room_entries rid s)\<rparr>"
    using gr(8) by (simp add: room'_def addUser_def room0 [symmetric] e1)
  have hist_eq: "hist = room_log rid s"
    using gr(2) by (simp add: hist_def room'_def addUser_def getDrawingHistory_def e1)
  have listed: "getUsers room' = map snd (AList.update u ud (room_entries rid s))"
    by (simp add: room'_eq getUsers_def)
  show "rooms s' = AList.update rid (r0\<lparr>users := AList.update u ud (room_entries rid s)\<rparr>) (rooms s)"
    using gr(10) [of room'] by (simp add: s'_eq s8_def s5_def room'_eq e1)
  show "userConnections s' = AList.update u cd (userConnections s)"
    using gr(5) by (simp add: s'_eq s8_def s5_def s1_def)
  have cl8: "clients s8 = map (join_conn wid u ud) (clients s)"
    using gr(4) by (simp add: s8_def s5_def s1_def join_conn_def comp_def)
  then show "clients s' = map (join_conn wid u ud) (clients s)"
    by (simp add: s'_eq)
  have uc8: "userConnections s8 = AList.update u cd (userConnections s)"
    using gr(5) by (simp add: s8_def s5_def s1_def)
  have out8: "outbox s8 = outbox s @ [(wid, UserList (getUsers room'))]
          @ (if hist = [] then [] else [(wid, DrawingHistory hist)])
          @ [(wid, SyncComplete (length hist))]"
    using gr(6) by (simp add: s8_def s5_def s1_def)
  show "outbox s' = outbox s
           @ [(wid, UserList (map snd (AList.update u ud (room_entries rid s))))]
           @ (if room_log rid s = [] then [] else [(wid, DrawingHistory (room_log rid s))])
           @ [(wid, SyncComplete (length (room_log rid s)))]
           @ map (\<lambda>c'. (ws_id c', UserJoined u n col))
               (filter (\<lambda>c'. ws_readyState c' = 1
                    \<and> map_option cd_roomId (map_of (AList.update u cd (userConnections s)) (ws_userId c'))
                        = Some rid
                    \<and> (u = Undefined \<or> u = Null \<or> ws_userId c' \<noteq> u))
                  (map (join_conn wid u ud) (clients s)))"
    unfolding s'_eq broadcastToRoom_outbox out8 cl8 uc8 listed hist_eq
    by (simp only: append_assoc)
qed

lemma map_filter_map:
  assumes "\<And>c. f (g c) = f c" and "\<And>c. P (g c) = Q c"
  shows "map f (filter P (map g cs)) = map f (filter Q cs)"
  by (induction cs) (simp_all add: assms)

lemma lookup_after_join:
  fixes cd :: connection_data
  assumes "cd_roomId cd = rid"
  shows "map_option cd_roomId (map_of (AList.update u cd ucs) v) = Some rid
           \<longleftrightarrow> v = u \<or> map_option cd_roomId (map_of ucs v) = Some rid"
  using assms by (cases "v = u") (simp_all add: update_conv')

lemma recipients_before:
  fixes cd :: connection_data
  assumes "cd_roomId cd = rid"
  shows "map (\<lambda>c'. (ws_id c', m))
           (filter (\<lambda>c'. ws_readyState c' = 1
                \<and> map_option cd_roomId (map_of (AList.update u cd ucs) (ws_userId c')) = Some rid
                \<and> (u = Undefined \<or> u = Null \<or> ws_userId c' \<noteq> u))
              (map (join_conn wid u ud) cs))
         = map (\<lambda>c'. (ws_id c', m))
             (if u = Undefined \<or> u = Null
              then filter (\<lambda>c'. ws_readyState c' = 1
                     \<and> (ws_id c' = wid \<or> ws_userId c' = u
                         \<or> map_option cd_roomId (map_of ucs (ws_userId c')) = Some rid)) cs
              else filter (\<lambda>c'. ws_readyState c' = 1 \<and> ws_id c' \<noteq> wid \<and> ws_userId c' \<noteq> u
                     \<and> map_option cd_roomId (map_of ucs (ws_userId c')) = Some rid) cs)"
proof (cases "u = Undefined \<or> u = Null")
  case True
  have "map (\<lambda>c'. (ws_id c', m))
           (filter (\<lambda>c'. ws_readyState c' = 1
                \<and> map_option cd_roomId (map_of (AList.update u cd ucs) (ws_userId c')) = Some rid
                \<and> (u = Undefined \<or> u = Null \<or> ws_userId c' \<noteq> u))
              (map (join_conn wid u ud) cs))
        = map (\<lambda>c'. (ws_id c', m))
            (filter (\<lambda>c'. ws_readyState c' = 1
                     \<and> (ws_id c' = wid \<or> ws_userId c' = u
                         \<or> map_option cd_roomId (map_of ucs (ws_userId c')) = Some rid)) cs)"
  proof (rule map_filter_map)
    fix c
    show "(ws_id (join_conn wid u ud c), m) = (ws_id c, m)" by simp
    show "(ws_readyState (join_conn wid u ud c) = 1
            \<and> map_option cd_roomId (map_of (AList.update u cd ucs) (ws_userId (join_conn wid u ud c)))
                = Some rid
            \<and> (u = Undefined \<or> u = Null \<or> ws_userId (join_conn wid u ud c) \<noteq> u))
          = (ws_readyState c = 1
             \<and> (ws_id c = wid \<or> ws_userId c = u
                 \<or> map_option cd_roomId (map_of ucs (ws_userId c)) = Some rid))"
      unfolding lookup_after_join [OF assms] using True
      by (cases "ws_id c = wid") auto
  qed
  with True show ?thesis by (simp only: if_True)
next
  case False
  have "map (\<lambda>c'. (ws_id c', m))
           (filter (\<lambda>c'. ws_readyState c' = 1
                \<and> map_option cd_roomId (map_of (AList.update u cd ucs) (ws_userId c')) = Some rid
                \<and> (u = Undefined \<or> u = Null \<or> ws_userId c' \<noteq> u))
              (map (join_conn wid u ud) cs))
        = map (\<lambda>c'. (ws_id c', m))
            (filter (\<lambda>c'. ws_readyState c' = 1 \<and> ws_id c' \<noteq> wid \<and> ws_userId c' \<noteq> u
                     \<and> map_option cd_roomId (map_of ucs (ws_userId c')) = Some rid) cs)"
  proof (rule map_filter_map)
    fix c
    show "(ws_id (join_conn wid u ud c), m) = (ws_id c, m)" by simp
    show "(ws_readyState (join_conn wid u ud c) = 1
            \<and> map_option cd_roomId (map_of (AList.update u cd ucs) (ws_userId (join_conn wid u ud c)))
                = Some rid
            \<and> (u = Undefined \<or> u = Null \<or> ws_userId (join_conn wid u ud c) \<noteq> u))
          = (ws_readyState c = 1 \<and> ws_id c \<noteq> wid \<and> ws_userId c \<noteq> u
             \<and> map_option cd_roomId (map_of ucs (ws_userId c)) = Some rid)"
      unfolding lookup_after_join [OF assms] using False
      by (cases "ws_id c = wid") auto
  qed
  with False show ?thesis by (simp only: if_False)
qed


text \<open>
  C5, amended. A \<^verbatim>\<open>user_join\<close> on a socket that has not joined leaves this state, given in
  terms of the one it found: the room's \<^verbatim>\<open>users\<close> map and \<^verbatim>\<open>userConnections\<close> hold the new
  entry under the message's id, every other entry and room is as before, and only the
  joiner's socket changes. It sends, in this order and after whatever was sent before: to
  the joiner \<^verbatim>\<open>user_list\<close> with the participants the room held plus the joiner;
  \<^verbatim>\<open>drawing_history\<close> with the whole log, exactly when the log is not empty;
  \<^verbatim>\<open>sync_complete\<close> with the log's length; then \<^verbatim>\<open>user_joined\<close>, once each, to the open sockets
  registered under the room. When the message carries an id these are the sockets other
  than the joiner's whose id differs from it; when the id is missing or null nobody is
  skipped and the joiner is among them.
\<close>

theorem C5_join_sequence:
  assumes "find_conn wid s = Some c" and "c_userId c = Null"
  shows "let rid = c_roomId c;
             ud = \<lparr>ud_userId = u, ud_userName = n, ud_userColor = col, ud_joinedAt = now\<rparr>;
             cd = \<lparr>cd_ws = wid, cd_userId = u, cd_userData = ud, cd_roomId = rid\<rparr>;
             s' = on_message now wid (UserJoin u n col) s;
             room0 = (case map_of (rooms s) rid of None \<Rightarrow> new_Room rid now | Some r \<Rightarrow> r);
             listed = map snd (AList.update u ud (room_entries rid s));
             others = filter (\<lambda>c'. ws_readyState c' = 1 \<and> ws_id c' \<noteq> wid \<and> ws_userId c' \<noteq> u
                        \<and> map_option cd_roomId (map_of (userConnections s) (ws_userId c')) = Some rid)
                      (clients s);
             everyone = filter (\<lambda>c'. ws_readyState c' = 1
                          \<and> (ws_id c' = wid \<or> ws_userId c' = u
                              \<or> map_option cd_roomId (map_of (userConnections s) (ws_userId c'))
                                  = Some rid))
                        (clients s)
         in rooms s' = AList.update rid (room0\<lparr>users := AList.update u ud (room_entries rid s)\<rparr>)
                         (rooms s)
            \<and> userConnections s' = AList.update u cd (userConnections s)
            \<and> clients s' = map (join_conn wid u ud) (clients s)
            \<and> room_users rid s' = listed
            \<and> room_log rid s' = room_log rid s
            \<and> outbox s' = outbox s
                @ [(wid, UserList listed)]
                @ (if room_log rid s = [] then [] else [(wid, DrawingHistory (room_log rid s))])
                @ [(wid, SyncComplete (length (room_log rid s)))]
                @ map (\<lambda>c'. (ws_id c', UserJoined u n col))
                    (if u = Undefined \<or> u = Null then everyone else others)"
proof -
  let ?rid = "c_roomId c"
  let ?ud = "\<lparr>ud_userId = u, ud_userName = n, ud_userColor = col, ud_joinedAt = now\<rparr>"
  let ?cd = "\<lparr>cd_ws = wid, cd_userId = u, cd_userData = ?ud, cd_roomId = ?rid\<rparr>"
  let ?r0 = "case map_of (rooms s) ?rid of None \<Rightarrow> new_Room ?rid now | Some r \<Rightarrow> r"
  have s': "on_message now wid (UserJoin u n col) s = handleUserJoin now wid ?rid u n col s"
    using assms(1) by (simp add: on_message_def)
  note st = handleUserJoin_state [of now wid ?rid u n col s]
  have rm: "map_of (rooms (handleUserJoin now wid ?rid u n col s)) ?rid
              = Some (?r0\<lparr>users := AList.update u ?ud (room_entries ?rid s)\<rparr>)"
    unfolding st(1) by (simp add: update_conv')
  have users': "room_users ?rid (handleUserJoin now wid ?rid u n col s)
                  = map snd (AList.update u ?ud (room_entries ?rid s))"
    using rm by (simp add: room_users_def getUsers_def)
  have log': "room_log ?rid (handleUserJoin now wid ?rid u n col s) = room_log ?rid s"
    using rm by (simp add: room_log_def getDrawingHistory_def new_Room_def split: option.splits)
  have cdr: "cd_roomId ?cd = ?rid" by simp
  note out = st(4) [unfolded recipients_before [OF cdr]]
  show ?thesis
    unfolding Let_def s'
    using st(1,2,3) users' log' out by (intro conjI)
qed

theorem C5_join_sequence_witness:
  "find_conn 2 example_server = Some (fresh_socket 2) \<and> c_userId (fresh_socket 2) = Null
   \<and> outbox (on_message 5 2 (UserJoin (Str ''B'') ''Bob'' ''#4ECDC4'') example_server)
       = outbox example_server
         @ [(2, UserList (map snd (AList.update (Str ''B'')
                  \<lparr>ud_userId = Str ''B'', ud_userName = ''Bob'', ud_userColor = ''#4ECDC4'',
                    ud_joinedAt = 5\<rparr> (room_entries ''default'' example_server)))),
            (2, DrawingHistory (room_log ''default'' example_server)),
            (2, SyncComplete 1),
            (1, UserJoined (Str ''B'') ''Bob'' ''#4ECDC4'')]"
proof -
  have f: "find_conn 2 example_server = Some (fresh_socket 2)"
    by code_simp
  have n: "c_userId (fresh_socket 2) = Null"
    by (simp add: fresh_socket_def)
  have r: "c_roomId (fresh_socket 2) = ''default''"
    by (simp add: fresh_socket_def)
  have l: "room_log ''default'' example_server \<noteq> []" "length (room_log ''default'' example_server) = 1"
    by code_simp+
  have o: "filter (\<lambda>c'. ws_readyState c' = 1 \<and> ws_id c' \<noteq> 2 \<and> ws_userId c' \<noteq> Str ''B''
                        \<and> map_option cd_roomId (map_of (userConnections example_server) (ws_userId c'))
                            = Some ''default'')
                      (clients example_server)
            = [\<lparr>ws_id = 1, ws_userId = Str ''A'', ws_readyState = 1, c_roomId = ''default'',
                c_userId = Str ''A'',
                c_userData = Some \<lparr>ud_userId = Str ''A'', ud_userName = ''Ann'',
                                    ud_userColor = ''#FF6B6B'', ud_joinedAt = 2\<rparr>\<rparr>]"
    by code_simp
  from C5_join_sequence [OF f n, where now = 5 and u = "Str ''B''" and n = "''Bob''"
      and col = "''#4ECDC4''"]
  have "outbox (on_message 5 2 (UserJoin (Str ''B'') ''Bob'' ''#4ECDC4'') example_server)
       = outbox example_server
         @ [(2, UserList (map snd (AList.update (Str ''B'')
                  \<lparr>ud_userId = Str ''B'', ud_userName = ''Bob'', ud_userColor = ''#4ECDC4'',
                    ud_joinedAt = 5\<rparr> (room_entries ''default'' example_server)))),
            (2, DrawingHistory (room_log ''default'' example_server)),
            (2, SyncComplete 1),
            (1, UserJoined (Str ''B'') ''Bob'' ''#4ECDC4'')]"
    unfolding Let_def r o using l by simp
  with f n show ?thesis by (intro conjI)
qed

text \<open>
  C5, as stated, fails. Socket 2 has not joined and sends a \<^verbatim>\<open>user_join\<close> without \<^verbatim>\<open>userId\<close>:
  after the three messages to the joiner, \<^verbatim>\<open>user_joined\<close> goes to socket 1 and to the
  joiner's own socket 2.
\<close>

theorem C5_missing_id_notifies_joiner:
  "find_conn 2 example_server = Some (fresh_socket 2)
   \<and> c_userId (fresh_socket 2) = Null
   \<and> drop (length (outbox example_server) + 3) (outbox (on_message 5 2 missing_id example_server))
       = [(1, UserJoined Undefined ''Bob'' ''#4ECDC4''), (2, UserJoined Undefined ''Bob'' ''#4ECDC4'')]"
  by code_simp

section \<open>Drawing messages on a joined socket\<close>

text \<open>
  C8. The server appends and forwards the operations of a \<^verbatim>\<open>drawing\<close> message as they
  arrive: user A's operation at \<open>x = -5\<close>, \<open>y = 1000000\<close> enters the log with those
  coordinates (only its timestamp is replaced) and reaches user B unchanged.
\<close>

theorem C8_out_of_bounds_kept:
  "room_log ''default'' (on_message 7 1 (Drawing ''A'' (Some [stray_op]) 6) example_pair)
     = room_log ''default'' example_pair @ [stamp 7 stray_op]
   \<and> op_x (stamp 7 stray_op) = Some (- 5)
   \<and> op_y (stamp 7 stray_op) = Some 1000000
   \<and> outbox (on_message 7 1 (Drawing ''A'' (Some [stray_op]) 6) example_pair)
     = outbox example_pair @ [(2, DrawingFrom (Str ''A'') [stray_op] 6)]"
  by code_simp

section \<open>Local history\<close>

text \<open>
  C3. Straight after the constructor's first \<^verbatim>\<open>saveHistory\<close> the history holds one snapshot
  and \<^verbatim>\<open>historyStep\<close> is 1: the step is not below the history's length.
\<close>

theorem C3_first_snapshot_step_past_end:
  "history (new_CanvasDrawing 0 :: nat CanvasDrawing) = [None]
   \<and> historyStep (new_CanvasDrawing 0 :: nat CanvasDrawing) = 1
   \<and> \<not> historyStep (new_CanvasDrawing 0 :: nat CanvasDrawing)
         < length (history (new_CanvasDrawing 0 :: nat CanvasDrawing))"
  by (simp add: new_CanvasDrawing_def CanvasDrawing_fields_def saveHistory_def Let_def)

text \<open>
  C2. After one stroke the step is 2 and the surface shows the stroke; the undo control
  then changes nothing: the step stays 2 and the surface is not redrawn.
\<close>

theorem C2_undo_control_does_nothing:
  "historyStep (canvas (client_run one_stroke example_client)) = 2
   \<and> surface (canvas (client_run one_stroke example_client)) = Some 1
   \<and> history (canvas (client_run one_stroke example_client)) = [None, Some 1]
   \<and> client_step (client_run one_stroke example_client) (1300, UndoClick)
       = client_run one_stroke example_client"
  by code_simp

section \<open>Batching of drawing messages\<close>

text \<open>
  C7. On a connected client the first move of the stroke flushes the \<^verbatim>\<open>start\<close> operation
  at 1100 ms. The release at 1120 ms hands the rest of the stroke to the connection
  manager, whose buffer keeps both \<^verbatim>\<open>draw\<close> operations: the only \<^verbatim>\<open>drawing\<close> message sent by
  the end of the gesture is the one of 1100 ms.
\<close>

theorem C7_release_does_not_flush:
  "filter is_drawing_msg (sent (wsManager (client_run short_stroke example_client)))
     = [Drawing ''user_0_abc'' (Some [pointer_op ''start'' 1000 5 5 (canvas example_client)]) 1100]
   \<and> wm_drawingBuffer (wsManager (client_run short_stroke example_client))
     = [pointer_op ''draw'' 1100 6 6 (canvas example_client),
        pointer_op ''draw'' 1110 7 7 (canvas example_client)]
   \<and> isConnected (wsManager (client_run short_stroke example_client))
   \<and> \<not> isDrawing (canvas (client_run short_stroke example_client))"
  by code_simp

section \<open>Reconnection\<close>

lemma rc_send [simp]: "rc (send m w) = rc w"
  by (simp add: rc_def send_def)

lemma rc_flushDrawingBuffer [simp]: "rc (flushDrawingBuffer now w) = rc w"
  using rc_send [of "Drawing (userId w) (Some (wm_drawingBuffer w)) now" w]
  by (simp add: rc_def flushDrawingBuffer_def)

lemma rc_sendDrawing [simp]: "rc (sendDrawing now operation w) = rc w"
  using rc_flushDrawingBuffer [of now "w\<lparr>wm_drawingBuffer := wm_drawingBuffer w @ [operation]\<rparr>"]
  by (simp add: sendDrawing_def Let_def) (simp add: rc_def)

lemma rc_fold_sendDrawing [simp]: "rc (fold (sendDrawing now) ops w) = rc w"
  by (induction ops arbitrary: w) simp_all

lemma rc_sendCursorMove [simp]: "rc (sendCursorMove now px py w) = rc w"
  by (simp add: sendCursorMove_def)

lemma rc_emitDrawing [simp]: "rc (wsManager (emitDrawing now cl)) = rc (wsManager cl)"
  by (simp add: emitDrawing_def)

lemma rc_emitMouseMove [simp]: "rc (wsManager (emitMouseMove now px py cl)) = rc (wsManager cl)"
  by (simp add: emitMouseMove_def)

lemma rc_startDrawing [simp]: "rc (wsManager (startDrawing now e px py cl)) = rc (wsManager cl)"
  by (simp add: startDrawing_def)

lemma rc_draw [simp]: "rc (wsManager (draw now px py r cl)) = rc (wsManager cl)"
  by (simp add: draw_def Let_def)

lemma rc_stopDrawing [simp]: "rc (wsManager (stopDrawing now cl)) = rc (wsManager cl)"
  by (simp add: stopDrawing_def Let_def)

lemma rc_clearCanvas [simp]: "rc (wsManager (clearCanvas now cl)) = rc (wsManager cl)"
  by (simp add: clearCanvas_def)

lemma rc_history_control [simp]: "rc (wsManager (history_control name cl)) = rc (wsManager cl)"
  by (simp add: history_control_def split: option.splits)

lemma rc_connect [simp]: "rc (connect w) = rc w"
  by (simp add: rc_def connect_def)

lemma rc_ws_open: "rc (ws_open w) = (True, 0, maxReconnectAttempts w, reconnectDelay w, reconnectTimers w)"
  by (simp add: rc_def ws_open_def handleOpen_def startPing_def send_def)

lemma rc_ws_closed:
  "rc (ws_closed w) =
     (if reconnectAttempts w < maxReconnectAttempts w
      then (False, reconnectAttempts w + 1, maxReconnectAttempts w, reconnectDelay w,
            reconnectTimers w @ [reconnectDelay w])
      else (False, reconnectAttempts w, maxReconnectAttempts w, reconnectDelay w, reconnectTimers w))"
  by (simp add: rc_def ws_closed_def handleClose_def attemptReconnect_def)

lemma rc_fields:
  "rc a = rc b \<Longrightarrow> isConnected a = isConnected b \<and> reconnectAttempts a = reconnectAttempts b
     \<and> maxReconnectAttempts a = maxReconnectAttempts b \<and> reconnectDelay a = reconnectDelay b
     \<and> reconnectTimers a = reconnectTimers b"
  by (simp add: rc_def)

lemma ws_open_fields:
  "isConnected (ws_open w)" "reconnectAttempts (ws_open w) = 0"
  "maxReconnectAttempts (ws_open w) = maxReconnectAttempts w"
  "reconnectDelay (ws_open w) = reconnectDelay w"
  "reconnectTimers (ws_open w) = reconnectTimers w"
  using rc_ws_open [of w] by (simp_all add: rc_def)

lemma ws_closed_fields:
  "\<not> isConnected (ws_closed w)"
  "reconnectAttempts (ws_closed w)
     = (if reconnectAttempts w < maxReconnectAttempts w then reconnectAttempts w + 1
        else reconnectAttempts w)"
  "maxReconnectAttempts (ws_closed w) = maxReconnectAttempts w"
  "reconnectDelay (ws_closed w) = reconnectDelay w"
  "reconnectTimers (ws_closed w)
     = (if reconnectAttempts w < maxReconnectAttempts w then reconnectTimers w @ [reconnectDelay w]
        else reconnectTimers w)"
  using rc_ws_closed [of w] by (simp_all add: rc_def split: if_splits)

lemma rc_client_step_other:
  "\<not> is_open_event e \<Longrightarrow> snd e \<noteq> WsClose \<Longrightarrow> rc (wsManager (client_step cl e)) = rc (wsManager cl)"
  by (cases e; cases "snd e") (simp_all add: is_open_event_def)

lemma client_step_inv:
  assumes "reconnect_inv (wsManager cl)"
  shows "reconnect_inv (wsManager (client_step cl e))"
proof -
  obtain now ev where e: "e = (now, ev)" by (cases e)
  consider "ev = WsOpen" | "ev = WsClose" | "\<not> is_open_event e" "snd e \<noteq> WsClose"
    by (cases ev) (simp_all add: e is_open_event_def)
  then show ?thesis
  proof cases
    case 1
    with assms show ?thesis by (simp add: e reconnect_inv_def ws_open_fields)
  next
    case 2
    with assms show ?thesis by (simp add: e reconnect_inv_def ws_closed_fields)
  next
    case 3
    then have "rc (wsManager (client_step cl e)) = rc (wsManager cl)"
      by (rule rc_client_step_other)
    from rc_fields [OF this] assms show ?thesis by (simp add: reconnect_inv_def)
  qed
qed

lemma new_client_inv: "reconnect_inv (wsManager (new_client t0 uid col))"
  by (simp add: new_client_def new_WebSocketManager_def connect_def reconnect_inv_def)

lemma client_run_inv:
  "reconnect_inv (wsManager cl) \<Longrightarrow> reconnect_inv (wsManager (client_run evs cl))"
  unfolding client_run_def
  by (induction evs arbitrary: cl) (simp_all add: client_step_inv)

lemma client_step_no_open:
  assumes "reconnect_inv (wsManager cl)" and "\<not> is_open_event e"
  shows "reconnectAttempts (wsManager cl) \<le> reconnectAttempts (wsManager (client_step cl e))
       \<and> reconnectTimers (wsManager (client_step cl e))
           = reconnectTimers (wsManager cl)
             @ replicate (reconnectAttempts (wsManager (client_step cl e))
                          - reconnectAttempts (wsManager cl)) 3000"
proof (cases "snd e = WsClose")
  case True
  then obtain now where e: "e = (now, WsClose)" by (cases e) simp
  from assms(1) show ?thesis
    by (simp add: e reconnect_inv_def ws_closed_fields)
next
  case False
  with assms(2) have "rc (wsManager (client_step cl e)) = rc (wsManager cl)"
    by (simp add: rc_client_step_other)
  from rc_fields [OF this] show ?thesis by simp
qed

lemma client_run_no_open:
  assumes "reconnect_inv (wsManager cl)" and "list_all (\<lambda>e. \<not> is_open_event e) evs"
  shows "reconnectAttempts (wsManager cl) \<le> reconnectAttempts (wsManager (client_run evs cl))
       \<and> reconnectTimers (wsManager (client_run evs cl))
           = reconnectTimers (wsManager cl)
             @ replicate (reconnectAttempts (wsManager (client_run evs cl))
                          - reconnectAttempts (wsManager cl)) 3000"
  using assms
proof (induction evs arbitrary: cl)
  case Nil
  then show ?case by (simp add: client_run_def)
next
  case (Cons e evs)
  let ?cl = "client_step cl e"
  from Cons.prems have st: "reconnectAttempts (wsManager cl) \<le> reconnectAttempts (wsManager ?cl)
       \<and> reconnectTimers (wsManager ?cl)
           = reconnectTimers (wsManager cl)
             @ replicate (reconnectAttempts (wsManager ?cl) - reconnectAttempts (wsManager cl)) 3000"
    by (intro client_step_no_open) simp_all
  from Cons.prems have "reconnect_inv (wsManager ?cl)" by (simp add: client_step_inv)
  with Cons.prems have ih: "reconnectAttempts (wsManager ?cl) \<le> reconnectAttempts (wsManager (client_run evs ?cl))
       \<and> reconnectTimers (wsManager (client_run evs ?cl))
           = reconnectTimers (wsManager ?cl)
             @ replicate (reconnectAttempts (wsManager (client_run evs ?cl))
                          - reconnectAttempts (wsManager ?cl)) 3000"
    by (intro Cons.IH) simp_all
  have run: "client_run (e # evs) cl = client_run evs ?cl" by (simp add: client_run_def)
  from st ih show ?case
    unfolding run by (simp add: replicate_add [symmetric])
qed

text \<open>
  C9. In every state a client can reach from its constructor: if the connection is up
  (Joined), its close schedules exactly one reconnect, 3000 ms ahead, and leaves it down;
  an open resets the attempt counter to zero; over any further events without an open the
  counter only grows, never beyond 5, and the reconnects scheduled meanwhile are as many
  as the counter grew, each 3000 ms ahead, so at most 5; and once the counter is at 5 no
  further reconnect is scheduled until an open.
\<close>

theorem C9_reconnect_policy:
  assumes "cl = client_run evs (new_client t0 uid col)"
      and "list_all (\<lambda>e. \<not> is_open_event e) later"
  shows "(isConnected (wsManager cl) \<longrightarrow>
            reconnectTimers (ws_closed (wsManager cl)) = reconnectTimers (wsManager cl) @ [3000]
            \<and> \<not> isConnected (ws_closed (wsManager cl)))
       \<and> reconnectAttempts (ws_open (wsManager cl)) = 0
       \<and> reconnectAttempts (wsManager (client_run later cl)) \<le> 5
       \<and> reconnectAttempts (wsManager cl) \<le> reconnectAttempts (wsManager (client_run later cl))
       \<and> reconnectTimers (wsManager (client_run later cl))
           = reconnectTimers (wsManager cl)
             @ replicate (reconnectAttempts (wsManager (client_run later cl))
                          - reconnectAttempts (wsManager cl)) 3000
       \<and> (reconnectAttempts (wsManager cl) = 5 \<longrightarrow>
            reconnectTimers (wsManager (client_run later cl)) = reconnectTimers (wsManager cl))"
proof -
  have inv: "reconnect_inv (wsManager cl)"
    unfolding assms(1) by (intro client_run_inv new_client_inv)
  then have inv': "reconnect_inv (wsManager (client_run later cl))"
    by (rule client_run_inv)
  note no = client_run_no_open [OF inv assms(2)]
  have a: "isConnected (wsManager cl) \<Longrightarrow>
      reconnectTimers (ws_closed (wsManager cl)) = reconnectTimers (wsManager cl) @ [3000]
               \<and> \<not> isConnected (ws_closed (wsManager cl))"
    using inv by (simp add: reconnect_inv_def ws_closed_fields split: if_splits)
  have b: "reconnectAttempts (ws_open (wsManager cl)) = 0"
    by (rule ws_open_fields)
  have c: "reconnectAttempts (wsManager (client_run later cl)) \<le> 5"
    using inv' by (simp add: reconnect_inv_def)
  have d: "reconnectAttempts (wsManager cl) = 5 \<Longrightarrow>
      reconnectTimers (wsManager (client_run later cl)) = reconnectTimers (wsManager cl)"
    using no c by simp
  from a b c d no show ?thesis by simp
qed


theorem C9_reconnect_policy_witness:
  "list_all (\<lambda>e. \<not> is_open_event e) six_failures
   \<and> isConnected (wsManager (client_run joined_once example_client))
   \<and> reconnectTimers (ws_closed (wsManager (client_run joined_once example_client)))
       = reconnectTimers (wsManager (client_run joined_once example_client)) @ [3000]
   \<and> reconnectTimers (wsManager (client_run six_failures (client_run joined_once example_client)))
       = replicate 5 3000
   \<and> reconnectAttempts (wsManager (client_run (joined_once @ six_failures) example_client)) = 5
   \<and> reconnectTimers (wsManager (client_run six_failures
                          (client_run (joined_once @ six_failures) example_client)))
       = reconnectTimers (wsManager (client_run (joined_once @ six_failures) example_client))"
proof -
  have h: "list_all (\<lambda>e. \<not> is_open_event e) six_failures"
    by code_simp
  have c: "isConnected (wsManager (client_run joined_once example_client))"
    by code_simp
  have t: "reconnectTimers (wsManager (client_run six_failures (client_run joined_once example_client)))
       = replicate 5 3000"
    by code_simp
  have a5: "reconnectAttempts (wsManager (client_run (joined_once @ six_failures) example_client)) = 5"
    by code_simp
  have e1: "client_run joined_once example_client = client_run joined_once (new_client 0 ''user_0_abc'' ''#FF6B6B'')"
    by (simp add: example_client_def)
  have e2: "client_run (joined_once @ six_failures) example_client
              = client_run (joined_once @ six_failures) (new_client 0 ''user_0_abc'' ''#FF6B6B'')"
    by (simp add: example_client_def)
  from C9_reconnect_policy [OF e1 h] C9_reconnect_policy [OF e2 h] h c t a5
  show ?thesis by blast
qed

section \<open>Participants and connected sockets\<close>

lemma set_open_ids: "set (open_ids s) = ids_of (clients s)"
  by (auto simp: open_ids_def ids_of_def)

lemma set_joined_ids:
  "set (joined_ids rid s)
     = {u. u \<noteq> Null \<and> (\<exists>c\<in>set (clients s). c_userId c = u \<and> c_roomId c = rid)}"
  by (auto simp: joined_ids_def)

lemma find_conn_Some:
  "find_conn wid s = Some c \<Longrightarrow> c \<in> set (clients s) \<and> ws_id c = wid"
  by (auto simp: find_conn_def find_Some_iff)

lemma find_conn_None:
  "find_conn wid s = None \<Longrightarrow> wid \<notin> ws_id ` set (clients s)"
  by (auto simp: find_conn_def find_None_iff)

lemma keys_update: "fst ` set (AList.update k v al) = insert k (fst ` set al)"
  by (induction al) auto

lemma keys_delete: "fst ` set (AList.delete k al) = fst ` set al - {k}"
  by (induction al) auto

lemma getOrCreateRoom_keys:
  assumes "getOrCreateRoom now rid s = (r, s2)"
  shows "fst ` set (rooms s2) = insert rid (fst ` set (rooms s))"
proof (cases "map_of (rooms s) rid")
  case None
  with assms show ?thesis
    by (clarsimp simp: getOrCreateRoom_def keys_update)
next
  case (Some r0)
  then have "rid \<in> fst ` set (rooms s)"
    by (metis domI dom_map_of_conv_image_fst)
  with assms Some show ?thesis
    by (auto simp: getOrCreateRoom_def)
qed

lemma participants_put_room [simp]:
  "participants rid (put_room rid r s) = map fst (users r)"
  by (simp add: participants_def update_conv')

lemma keys_put_room:
  "fst ` set (rooms (put_room rid r s)) = insert rid (fst ` set (rooms s))"
  by (simp add: put_room_def keys_update)

lemma removeUserConnection_frame [simp]:
  "rooms (removeUserConnection uid s) = rooms s"
  "clients (removeUserConnection uid s) = clients s"
  "outbox (removeUserConnection uid s) = outbox s"
  by (simp_all add: removeUserConnection_def)

lemma participants_cong: "rooms s = rooms t \<Longrightarrow> participants rid s = participants rid t"
  by (simp add: participants_def)

text \<open>What each handler does to the sockets, the participants and the registry keys.\<close>

lemma fst_room_entries: "map fst (room_entries rid s) = participants rid s"
  by (simp add: room_entries_def participants_def split: option.splits)

lemma handleUserJoin_clients:
  "clients (handleUserJoin now wid rid u n col s)
     = map (join_conn wid u \<lparr>ud_userId = u, ud_userName = n, ud_userColor = col,
                                ud_joinedAt = now\<rparr>) (clients s)"
  by (rule handleUserJoin_state(3))

lemma handleUserJoin_participants:
  "set (participants rid (handleUserJoin now wid rid u n col s)) = insert u (set (participants rid s))"
proof -
  have "participants rid (handleUserJoin now wid rid u n col s)
          = map fst (AList.update u \<lparr>ud_userId = u, ud_userName = n, ud_userColor = col,
                                      ud_joinedAt = now\<rparr> (room_entries rid s))"
    unfolding participants_def handleUserJoin_state(1) by (simp add: update_conv')
  then show ?thesis
    by (metis keys_update set_map fst_room_entries)
qed

lemma handleUserJoin_keys:
  "fst ` set (rooms (handleUserJoin now wid rid u n col s)) = insert rid (fst ` set (rooms s))"
  unfolding handleUserJoin_state(1) by (rule keys_update)

lemma getOrCreateRoom_participants:
  assumes "getOrCreateRoom now rid s = (r, s2)"
  shows "participants rid' s2 = participants rid' s"
proof (cases "rid' = rid")
  case True
  with getOrCreateRoom_result(1,3) [OF assms] show ?thesis
    by (simp add: participants_def)
next
  case False
  with getOrCreateRoom_result(7) [OF assms, of rid'] show ?thesis
    by (simp add: participants_def)
qed

lemma put_room_participants_other:
  "rid' \<noteq> rid \<Longrightarrow> participants rid' (put_room rid r s) = participants rid' s"
  by (simp add: participants_def update_conv')

lemma users_addDrawingOperation [simp]: "users (addDrawingOperation now ops r) = users r"
  by (simp add: addDrawingOperation_def Let_def)

lemma handleDrawing_effect:
  "clients (handleDrawing now c ops ts s) = clients s"
  "participants rid' (handleDrawing now c ops ts s) = participants rid' s"
  "fst ` set (rooms (handleDrawing now c ops ts s)) \<subseteq> insert (c_roomId c) (fst ` set (rooms s))"
proof -
  obtain r s1 where g: "getOrCreateRoom now (c_roomId c) s = (r, s1)"
    by (cases "getOrCreateRoom now (c_roomId c) s")
  note gr = getOrCreateRoom_result [OF g]
  show "clients (handleDrawing now c ops ts s) = clients s"
    using g gr(4) by (simp add: handleDrawing_def split: option.splits)
  have p: "participants rid' (put_room (c_roomId c) (addDrawingOperation now xs r) s1)
             = participants rid' s" for xs
  proof (cases "rid' = c_roomId c")
    case True
    with gr(3) show ?thesis by simp
  next
    case False
    with getOrCreateRoom_participants [OF g, of rid'] show ?thesis
      by (simp add: put_room_participants_other)
  qed
  show "participants rid' (handleDrawing now c ops ts s) = participants rid' s"
    using g getOrCreateRoom_participants [OF g, of rid'] p
    by (simp add: handleDrawing_def participants_cong [OF broadcastToRoom_frame(1)]
        split: option.splits)
  show "fst ` set (rooms (handleDrawing now c ops ts s)) \<subseteq> insert (c_roomId c) (fst ` set (rooms s))"
    using g getOrCreateRoom_keys [OF g]
    by (auto simp: handleDrawing_def keys_update split: option.splits)
qed

lemma handleCursorMove_effect:
  "clients (handleCursorMove c px py ts s) = clients s"
  "rooms (handleCursorMove c px py ts s) = rooms s"
  by (simp_all add: handleCursorMove_def split: option.splits)

lemma handlePing_effect:
  "clients (handlePing wid s) = clients s"
  "rooms (handlePing wid s) = rooms s"
  by (simp_all add: handlePing_def)

lemma handleCanvasSync_effect:
  "clients (handleCanvasSync now c s) = clients s"
  "participants rid' (handleCanvasSync now c s) = participants rid' s"
  "fst ` set (rooms (handleCanvasSync now c s)) \<subseteq> insert (c_roomId c) (fst ` set (rooms s))"
proof -
  obtain r s1 where g: "getOrCreateRoom now (c_roomId c) s = (r, s1)"
    by (cases "getOrCreateRoom now (c_roomId c) s")
  note gr = getOrCreateRoom_result [OF g]
  show "clients (handleCanvasSync now c s) = clients s"
    using g gr(4) by (simp add: handleCanvasSync_def)
  have "rooms (handleCanvasSync now c s) = rooms s1"
    using g by (simp add: handleCanvasSync_def)
  then show "participants rid' (handleCanvasSync now c s) = participants rid' s"
    "fst ` set (rooms (handleCanvasSync now c s)) \<subseteq> insert (c_roomId c) (fst ` set (rooms s))"
    using getOrCreateRoom_participants [OF g, of rid'] getOrCreateRoom_keys [OF g]
    by (simp_all add: participants_def)
qed

lemma on_close_effect:
  assumes "find_conn wid s = Some c"
  shows "clients (on_close now wid s) = filter (\<lambda>c'. ws_id c' \<noteq> wid) (clients s)"
    and "set (participants (c_roomId c) (on_close now wid s))
           = (if truthy (c_userId c) then set (participants (c_roomId c) s) - {c_userId c}
              else set (participants (c_roomId c) s))"
    and "fst ` set (rooms (on_close now wid s)) \<subseteq> insert (c_roomId c) (fst ` set (rooms s))"
proof -
  let ?s0 = "s\<lparr>clients := filter (\<lambda>c'. ws_id c' \<noteq> wid) (clients s)\<rparr>"
  obtain r s1 where g: "getOrCreateRoom now (c_roomId c) ?s0 = (r, s1)"
    by (cases "getOrCreateRoom now (c_roomId c) ?s0")
  note gr = getOrCreateRoom_result [OF g]
  have p0: "participants rid' ?s0 = participants rid' s" for rid'
    by (simp add: participants_def)
  show "clients (on_close now wid s) = filter (\<lambda>c'. ws_id c' \<noteq> wid) (clients s)"
    using assms g gr(4) by (simp add: on_close_def Let_def split: option.splits)
  have del: "set (map fst (AList.delete uid (users r))) = set (participants (c_roomId c) s) - {uid}" for uid
    using gr(3) p0 [of "c_roomId c"] by (metis keys_delete set_map)
  show "set (participants (c_roomId c) (on_close now wid s))
           = (if truthy (c_userId c) then set (participants (c_roomId c) s) - {c_userId c}
              else set (participants (c_roomId c) s))"
    using assms g del p0 [of "c_roomId c"]
    by (simp add: on_close_def Let_def removeUser_def
        participants_cong [OF removeUserConnection_frame(1)]
        participants_cong [OF broadcastToRoom_frame(1)] split: option.splits)
  have k0: "fst ` set (rooms ?s0) = fst ` set (rooms s)" by simp
  show "fst ` set (rooms (on_close now wid s)) \<subseteq> insert (c_roomId c) (fst ` set (rooms s))"
    using assms g getOrCreateRoom_keys [OF g] k0
    by (auto simp: on_close_def Let_def keys_update split: option.splits)
qed


lemma ids_of_join:
  assumes "distinct (map ws_id cs)" and "c \<in> set cs" and "ws_id c = wid"
      and "c_userId c = Null \<or> c_userId c = u" and "u \<noteq> Null"
  shows "ids_of (map (join_conn wid u ud) cs) = insert u (ids_of cs)"
proof -
  have inj: "inj_on ws_id (set cs)" using assms(1) by (simp add: distinct_map)
  have same: "c' = c" if "c' \<in> set cs" "ws_id c' = wid" for c'
    using inj that assms(2,3) by (auto dest: inj_onD)
  show ?thesis
  proof (intro set_eqI iffI)
    fix x assume "x \<in> ids_of (map (join_conn wid u ud) cs)"
    then obtain c' where "c' \<in> set cs" "c_userId (join_conn wid u ud c') = x" "x \<noteq> Null"
      by (auto simp: ids_of_def)
    then show "x \<in> insert u (ids_of cs)"
      by (auto simp: ids_of_def split: if_splits)
  next
    fix x assume x: "x \<in> insert u (ids_of cs)"
    show "x \<in> ids_of (map (join_conn wid u ud) cs)"
    proof (cases "x = u")
      case True
      have "c_userId (join_conn wid u ud c) = u" using assms(3) by simp
      with assms(2,5) True show ?thesis by (force simp: ids_of_def)
    next
      case False
      with x obtain c' where c': "c' \<in> set cs" "c_userId c' = x" "x \<noteq> Null"
        by (auto simp: ids_of_def)
      have "ws_id c' \<noteq> wid"
      proof
        assume "ws_id c' = wid"
        with c'(1) have "c' = c" by (rule same)
        with c'(2,3) assms(4) False show False by auto
      qed
      with c' have "c_userId (join_conn wid u ud c') = x" by simp
      with c'(1,3) show ?thesis by (force simp: ids_of_def)
    qed
  qed
qed

lemma ids_unique_join:
  assumes "distinct (map ws_id cs)" and "c \<in> set cs" and "ws_id c = wid"
      and "ids_unique cs" and "u \<noteq> Null"
      and "(c_userId c = Null \<and> u \<notin> ids_of cs) \<or> c_userId c = u"
  shows "ids_unique (map (join_conn wid u ud) cs)"
  unfolding ids_unique_def
proof (intro ballI impI)
  fix a b
  assume a: "a \<in> set (map (join_conn wid u ud) cs)" and b: "b \<in> set (map (join_conn wid u ud) cs)"
    and eq: "c_userId a = c_userId b"
  from a obtain a0 where a0: "a0 \<in> set cs" "a = join_conn wid u ud a0" by auto
  from b obtain b0 where b0: "b0 \<in> set cs" "b = join_conn wid u ud b0" by auto
  have other: "ws_id x = wid" if "x \<in> set cs" "c_userId x = u" for x
  proof -
    from assms(5,6) that have "c_userId c = u" by (auto simp: ids_of_def)
    with that assms(2,3,4,5) show ?thesis by (fastforce simp: ids_unique_def)
  qed
  show "c_userId a = Null \<or> ws_id a = ws_id b"
  proof (cases "ws_id a0 = wid")
    case True
    show ?thesis
    proof (cases "ws_id b0 = wid")
      case True
      with \<open>ws_id a0 = wid\<close> a0 b0 show ?thesis by simp
    next
      case False
      with True eq a0 b0 have "c_userId b0 = u" by simp
      with b0(1) have "ws_id b0 = wid" by (rule other)
      with False show ?thesis by simp
    qed
  next
    case False
    show ?thesis
    proof (cases "ws_id b0 = wid")
      case True
      with False eq a0 b0 have "c_userId a0 = u" by simp
      with a0(1) have "ws_id a0 = wid" by (rule other)
      with False show ?thesis by simp
    next
      case nb: False
      with False eq a0 b0 have "c_userId a0 = c_userId b0" by simp
      with a0(1) b0(1) assms(4) have "c_userId a0 = Null \<or> ws_id a0 = ws_id b0"
        by (simp add: ids_unique_def)
      with False nb a0 b0 show ?thesis by simp
    qed
  qed
qed

lemma ids_of_close:
  assumes "distinct (map ws_id cs)" and "c \<in> set cs" and "ws_id c = wid" and "ids_unique cs"
  shows "ids_of (filter (\<lambda>c'. ws_id c' \<noteq> wid) cs) = ids_of cs - {c_userId c}"
proof -
  have inj: "inj_on ws_id (set cs)" using assms(1) by (simp add: distinct_map)
  have same: "c' = c" if "c' \<in> set cs" "ws_id c' = wid" for c'
    using inj that assms(2,3) by (auto dest: inj_onD)
  show ?thesis
  proof (intro set_eqI iffI)
    fix x assume "x \<in> ids_of (filter (\<lambda>c'. ws_id c' \<noteq> wid) cs)"
    then obtain c' where c': "c' \<in> set cs" "ws_id c' \<noteq> wid" "c_userId c' = x" "x \<noteq> Null"
      by (auto simp: ids_of_def)
    have "x \<noteq> c_userId c"
    proof
      assume "x = c_userId c"
      with c' have "c_userId c' = c_userId c" by simp
      with c'(1) assms(2,4) have "c_userId c' = Null \<or> ws_id c' = ws_id c"
        by (simp add: ids_unique_def)
      with c' assms(3) show False by simp
    qed
    with c' show "x \<in> ids_of cs - {c_userId c}" by (auto simp: ids_of_def)
  next
    fix x assume "x \<in> ids_of cs - {c_userId c}"
    then obtain c' where c': "c' \<in> set cs" "c_userId c' = x" "x \<noteq> c_userId c" "x \<noteq> Null"
      by (auto simp: ids_of_def)
    with same [of c'] have "ws_id c' \<noteq> wid" by auto
    with c' show "x \<in> ids_of (filter (\<lambda>c'. ws_id c' \<noteq> wid) cs)" by (force simp: ids_of_def)
  qed
qed

lemma ids_unique_filter: "ids_unique cs \<Longrightarrow> ids_unique (filter P cs)"
  by (simp add: ids_unique_def)

lemma ids_of_filter_subset: "ids_of (filter P cs) \<subseteq> ids_of cs"
  by (auto simp: ids_of_def)

lemma room_inv_start: "room_inv server_start"
  by (simp add: room_inv_def server_start_def participants_def ids_of_def ids_unique_def)

lemma room_inv_connection:
  assumes "room_inv s"
  shows "room_inv (on_connection wid s)"
proof (cases "find_conn wid s")
  case (Some c)
  with assms show ?thesis by (simp add: on_connection_def)
next
  case None
  let ?new = "\<lparr>ws_id = wid, ws_userId = Undefined, ws_readyState = 1, c_roomId = ''default'',
               c_userId = Null, c_userData = None\<rparr>"
  have cl: "clients (on_connection wid s) = clients s @ [?new]"
    and rm: "rooms (on_connection wid s) = rooms s"
    using None by (simp_all add: on_connection_def)
  have ids: "ids_of (clients s @ [?new]) = ids_of (clients s)"
    by (auto simp: ids_of_def)
  have uq: "ids_unique (clients s @ [?new])"
    using assms by (auto simp: room_inv_def ids_unique_def)
  from find_conn_None [OF None] assms show ?thesis
    unfolding room_inv_def cl ids participants_cong [OF rm] rm
    using uq by auto
qed

lemma room_inv_join:
  assumes inv: "room_inv s" and f: "find_conn wid s = Some c" and adm: "join_admissible s wid u"
  shows "room_inv (handleUserJoin now wid (c_roomId c) u n col s)"
proof -
  let ?ud = "\<lparr>ud_userId = u, ud_userName = n, ud_userColor = col, ud_joinedAt = now\<rparr>"
  let ?s' = "handleUserJoin now wid (c_roomId c) u n col s"
  note fc = find_conn_Some [OF f]
  from inv fc have rid: "c_roomId c = ''default''" by (simp add: room_inv_def)
  from adm f have u: "truthy u"
    and cases: "(c_userId c = Null \<and> u \<notin> ids_of (clients s)) \<or> c_userId c = u"
    by (auto simp: join_admissible_def set_open_ids split: if_splits)
  from u have un: "u \<noteq> Null" by auto
  from inv have d: "distinct (map ws_id (clients s))" and uq: "ids_unique (clients s)"
    by (simp_all add: room_inv_def)
  have cl: "clients ?s' = map (join_conn wid u ?ud) (clients s)"
    by (rule handleUserJoin_clients)
  have ids: "ids_of (clients ?s') = insert u (ids_of (clients s))"
    unfolding cl using d fc cases un by (intro ids_of_join) auto
  have uq': "ids_unique (clients ?s')"
    unfolding cl using d fc uq cases un by (intro ids_unique_join) auto
  have part: "set (participants ''default'' ?s') = insert u (set (participants ''default'' s))"
    using handleUserJoin_participants [of "c_roomId c" now wid u n col s] by (simp add: rid)
  have keys: "fst ` set (rooms ?s') = insert ''default'' (fst ` set (rooms s))"
    using handleUserJoin_keys [of now wid "c_roomId c" u n col s] by (simp add: rid)
  have d': "distinct (map ws_id (clients ?s'))"
    unfolding cl using d by (simp add: comp_def)
  have rooms': "\<forall>c'\<in>set (clients ?s'). c_roomId c' = ''default''"
    unfolding cl using inv by (simp add: room_inv_def)
  from inv u show ?thesis
    unfolding room_inv_def ids part keys
    using uq' d' rooms' by auto
qed

lemma room_inv_frame:
  assumes "room_inv s" and "clients s' = clients s"
      and "participants ''default'' s' = participants ''default'' s"
      and "fst ` set (rooms s') \<subseteq> insert ''default'' (fst ` set (rooms s))"
  shows "room_inv s'"
proof -
  from assms(1) have "fst ` set (rooms s) \<subseteq> {''default''}" by (simp add: room_inv_def)
  with assms(4) have "fst ` set (rooms s') \<subseteq> {''default''}" by blast
  with assms(1,2,3) show ?thesis by (simp add: room_inv_def)
qed

lemma room_inv_message:
  assumes inv: "room_inv s" and adm: "event_admissible s (now, Message wid msg)"
  shows "room_inv (on_message now wid msg s)"
proof (cases "find_conn wid s")
  case None
  with inv show ?thesis by (simp add: on_message_def)
next
  case (Some c)
  note fc = find_conn_Some [OF Some]
  from inv fc have rid: "c_roomId c = ''default''" by (simp add: room_inv_def)
  show ?thesis
  proof (cases msg)
    case (UserJoin u n col)
    with adm have "join_admissible s wid u" by simp
    from room_inv_join [OF inv Some this] show ?thesis
      by (simp add: on_message_def Some UserJoin)
  next
    case (Drawing u ops ts)
    have "room_inv (handleDrawing now c ops ts s)"
    proof (rule room_inv_frame [OF inv])
      show "clients (handleDrawing now c ops ts s) = clients s"
        by (rule handleDrawing_effect(1))
      show "participants ''default'' (handleDrawing now c ops ts s) = participants ''default'' s"
        by (rule handleDrawing_effect(2))
      show "fst ` set (rooms (handleDrawing now c ops ts s)) \<subseteq> insert ''default'' (fst ` set (rooms s))"
        using handleDrawing_effect(3) [of now c ops ts s] by (simp only: rid)
    qed
    then show ?thesis by (simp add: on_message_def Some Drawing)
  next
    case (CursorMove u px py ts)
    have "room_inv (handleCursorMove c px py ts s)"
    proof (rule room_inv_frame [OF inv])
      show "clients (handleCursorMove c px py ts s) = clients s"
        by (rule handleCursorMove_effect(1))
      show "participants ''default'' (handleCursorMove c px py ts s) = participants ''default'' s"
        by (rule participants_cong) (rule handleCursorMove_effect(2))
      show "fst ` set (rooms (handleCursorMove c px py ts s)) \<subseteq> insert ''default'' (fst ` set (rooms s))"
        unfolding handleCursorMove_effect(2) by (rule subset_insertI)
    qed
    then show ?thesis by (simp add: on_message_def Some CursorMove)
  next
    case Ping
    have "room_inv (handlePing wid s)"
    proof (rule room_inv_frame [OF inv])
      show "clients (handlePing wid s) = clients s"
        by (rule handlePing_effect(1))
      show "participants ''default'' (handlePing wid s) = participants ''default'' s"
        by (rule participants_cong) (rule handlePing_effect(2))
      show "fst ` set (rooms (handlePing wid s)) \<subseteq> insert ''default'' (fst ` set (rooms s))"
        unfolding handlePing_effect(2) by (rule subset_insertI)
    qed
    then show ?thesis by (simp add: on_message_def Some Ping)
  next
    case CanvasSync
    have "room_inv (handleCanvasSync now c s)"
    proof (rule room_inv_frame [OF inv])
      show "clients (handleCanvasSync now c s) = clients s"
        by (rule handleCanvasSync_effect(1))
      show "participants ''default'' (handleCanvasSync now c s) = participants ''default'' s"
        by (rule handleCanvasSync_effect(2))
      show "fst ` set (rooms (handleCanvasSync now c s)) \<subseteq> insert ''default'' (fst ` set (rooms s))"
        using handleCanvasSync_effect(3) [of now c s] by (simp only: rid)
    qed
    then show ?thesis by (simp add: on_message_def Some CanvasSync)
  next
    case (UnknownType t)
    with inv show ?thesis by (simp add: on_message_def Some)
  next
    case Malformed
    with inv show ?thesis by (simp add: on_message_def Some)
  qed
qed

lemma room_inv_close:
  assumes inv: "room_inv s"
  shows "room_inv (on_close now wid s)"
proof (cases "find_conn wid s")
  case None
  with inv show ?thesis by (simp add: on_close_def)
next
  case (Some c)
  note fc = find_conn_Some [OF Some]
  note eff = on_close_effect [OF Some, of now]
  let ?s' = "on_close now wid s"
  from inv fc have rid: "c_roomId c = ''default''" by (simp add: room_inv_def)
  from inv have d: "distinct (map ws_id (clients s))" and uq: "ids_unique (clients s)"
    and ne: "\<forall>u\<in>ids_of (clients s). truthy u"
    and pi: "set (participants ''default'' s) = ids_of (clients s)"
    by (simp_all add: room_inv_def)
  have ids: "ids_of (clients ?s') = ids_of (clients s) - {c_userId c}"
    unfolding eff(1) using d fc uq by (intro ids_of_close) auto
  have joined: "truthy (c_userId c)" if "c_userId c \<noteq> Null"
    using that fc ne by (auto simp: ids_of_def)
  have part: "set (participants ''default'' ?s') = ids_of (clients ?s')"
  proof (cases "c_userId c = Null")
    case True
    then have "c_userId c \<notin> ids_of (clients s)" by (simp add: ids_of_def)
    with True eff(2) ids pi show ?thesis by (simp add: rid)
  next
    case False
    with joined eff(2) ids pi show ?thesis by (simp add: rid)
  qed
  have d': "distinct (map ws_id (clients ?s'))"
    unfolding eff(1) using d by (simp add: distinct_map_filter)
  have uq': "ids_unique (clients ?s')"
    unfolding eff(1) using uq by (rule ids_unique_filter)
  have ne': "\<forall>u\<in>ids_of (clients ?s'). truthy u"
    unfolding eff(1) using ne ids_of_filter_subset by blast
  have rooms': "\<forall>c'\<in>set (clients ?s'). c_roomId c' = ''default''"
    unfolding eff(1) using inv by (simp add: room_inv_def)
  have keys: "fst ` set (rooms ?s') \<subseteq> {''default''}"
  proof -
    from inv have "fst ` set (rooms s) \<subseteq> {''default''}" by (simp add: room_inv_def)
    with eff(3) [unfolded rid] show ?thesis by blast
  qed
  from part d' uq' ne' rooms' keys show ?thesis
    unfolding room_inv_def by simp
qed

lemma room_inv_step:
  "room_inv s \<Longrightarrow> event_admissible s e \<Longrightarrow> room_inv (server_step s e)"
proof (cases e)
  case (Pair now ev)
  assume "room_inv s" "event_admissible s e"
  then show ?thesis
    unfolding Pair
    by (cases ev) (simp_all add: room_inv_connection room_inv_message room_inv_close)
qed

lemma room_inv_run:
  "room_inv s \<Longrightarrow> admissible s evs \<Longrightarrow> room_inv (server_run evs s)"
  unfolding server_run_def
  by (induction evs arbitrary: s) (simp_all add: room_inv_step)

lemma room_inv_sets:
  assumes "room_inv s"
  shows "set (participants rid s) = set (joined_ids rid s)"
proof (cases "rid = ''default''")
  case True
  from assms have "set (joined_ids ''default'' s) = ids_of (clients s)"
    unfolding set_joined_ids by (auto simp: room_inv_def ids_of_def)
  with assms True show ?thesis by (simp add: room_inv_def)
next
  case False
  with assms have "rid \<notin> fst ` set (rooms s)" by (auto simp: room_inv_def)
  then have "map_of (rooms s) rid = None" by (simp add: map_of_eq_None_iff)
  then have "participants rid s = []" by (simp add: participants_def)
  moreover from assms False have "set (joined_ids rid s) = {}"
    unfolding set_joined_ids by (auto simp: room_inv_def)
  ultimately show ?thesis by simp
qed

text \<open>
  C4, amended. Over every sequence of connections, messages and closes in which each
  \<^verbatim>\<open>user_join\<close> carries a non-empty string as id and either arrives on a socket that has not
  joined, with an id new among the sockets still connected, or arrives on a socket that
  has joined, with the id that socket joined under, the ids a room holds are exactly the
  ids under which the sockets still connected have joined that room.
\<close>

theorem C4_participants_match_sockets:
  assumes "admissible server_start evs"
  shows "set (participants rid (server_run evs server_start))
           = set (joined_ids rid (server_run evs server_start))"
  using room_inv_run [OF room_inv_start assms] by (rule room_inv_sets)

theorem C4_participants_match_sockets_witness:
  "admissible server_start orderly_session
   \<and> set (participants ''default'' (server_run orderly_session server_start))
       = set (joined_ids ''default'' (server_run orderly_session server_start))
   \<and> participants ''default'' (server_run orderly_session server_start) = [Str ''B'']"
proof -
  have h: "admissible server_start orderly_session"
    by code_simp
  have v: "participants ''default'' (server_run orderly_session server_start) = [Str ''B'']"
    by code_simp
  from h v C4_participants_match_sockets [OF h, of "''default''"] show ?thesis
    by (intro conjI)
qed

text \<open>
  C4, as stated, fails. A socket joins as A, joins again as B and closes: the room still
  holds A although no socket is left. Two sockets join as A and the first closes: the room
  holds nobody although the second socket is still joined. A socket joins under the empty
  id and closes: the room still holds the empty id.
\<close>

theorem C4_duplicate_join_leaves_ghost:
  "participants ''default'' (server_run duplicate_join server_start) = [Str ''A'']
   \<and> joined_ids ''default'' (server_run duplicate_join server_start) = []
   \<and> clients (server_run duplicate_join server_start) = []
   \<and> participants ''default'' (server_run shared_id server_start) = []
   \<and> joined_ids ''default'' (server_run shared_id server_start) = [Str ''A'']
   \<and> participants ''default'' (server_run empty_id server_start) = [Str []]
   \<and> joined_ids ''default'' (server_run empty_id server_start) = []"
  by code_simp

end
